theory Spec2Isabelle
  imports Main "HOL-Library.Word" "HOL-Library.Multiset"
begin

unbundle bit_operations_syntax

section \<open>Data model of package domainbl\<close>

text \<open>
  Go's \<open>byte\<close> is an 8-bit word. Go's \<open>int\<close> is taken at its 64-bit width: \<open>+\<close> wraps and
  \<open>>=\<close> is the signed comparison \<open>word_sle\<close>.
\<close>

type_synonym byte = "8 word"
type_synonym go_int = "64 word"

text \<open>\<open>type List struct { Zone string; Bits byte; ScoreAdj int }\<close> (domainbl.go).\<close>

record List_cfg =
  Zone :: string
  Bits :: byte
  ScoreAdj :: go_int

text \<open>
  A recovered panic value. The only panic the package can raise by itself is the runtime's
  index error: index \<open>i\<close> read from a slice of length \<open>n\<close>.
\<close>

datatype panic_value = IndexOutOfRange nat nat

text \<open>
  Error values. \<open>DNSError\<close> is \<open>*net.DNSError\<close> with its \<open>IsNotFound\<close> and \<open>IsTemporary\<close>
  flags; \<open>ResolverError\<close> is any resolver error of another dynamic type;
  \<open>errBadBLResponse\<close> and \<open>context_Canceled\<close> are the two sentinel values;
  \<open>Errorf_zone z e\<close> is \<open>fmt.Errorf("%s: %v", z, e)\<close> and \<open>Errorf_recovered p\<close> is
  \<open>fmt.Errorf("%v", p)\<close>.
\<close>

datatype go_error =
    DNSError (IsNotFound: bool) (IsTemporary: bool) string
  | ResolverError string
  | errBadBLResponse
  | context_Canceled
  | Errorf_zone string go_error
  | Errorf_recovered panic_value

text \<open>A Go call either returns or panics.\<close>

datatype 'a outcome = Returned 'a | Panicked panic_value

text \<open>
  \<open>dns.Resolver.LookupHost(ctx, host)\<close>: the addresses and the error it returns for a host.
  The resolver is a function of the host name alone: it answers the same name the same way
  every time and does not react to \<open>ctx\<close>.
  \<open>net.ParseIP\<close>: \<open>None\<close> is the nil IP. \<open>publicsuffix.Domain\<close>: \<open>Some base\<close> when its error
  is nil (the error value itself is never read). The three are libraries outside the
  package and are parameters of the functions below.
\<close>

type_synonym resolver = "string \<Rightarrow> string list \<times> go_error option"
type_synonym parse_ip = "string \<Rightarrow> byte list option"
type_synonym public_suffix = "string \<Rightarrow> string option"

subsection \<open>Standard library: \<open>net.IP\<close>\<close>

text \<open>
  \<open>IP.To4\<close>: a 4-byte address is returned as it is, a 16-byte address with the
  IPv4-in-IPv6 prefix (ten zero bytes, then \<open>0xff 0xff\<close>) gives its last four bytes, anything
  else gives nil.
\<close>

definition To4 :: "byte list \<Rightarrow> byte list option" where
  "To4 ip =
     (if length ip = 4 then Some ip
      else if length ip = 16 \<and> take 10 ip = replicate 10 0 \<and> ip ! 10 = 0xff \<and> ip ! 11 = 0xff
        then Some (drop 12 ip)
      else None)"

text \<open>\<open>net.IPv4(a, b, c, d)\<close>: the 16-byte form of an IPv4 address.\<close>

definition IPv4 :: "byte \<Rightarrow> byte \<Rightarrow> byte \<Rightarrow> byte \<Rightarrow> byte list" where
  "IPv4 a b c d = replicate 10 0 @ [0xff, 0xff, a, b, c, d]"

text \<open>Decimal printing of an unsigned number, and \<open>IP.String\<close> of a 4-byte address.\<close>

fun uitoa :: "nat \<Rightarrow> string" where
  "uitoa n = (if n < 10 then [char_of (48 + n)] else uitoa (n div 10) @ [char_of (48 + n mod 10)])"

declare uitoa.simps [simp del]

definition IP_String :: "byte list \<Rightarrow> string" where
  "IP_String v4 =
     uitoa (unat (v4 ! 0)) @ ''.'' @ uitoa (unat (v4 ! 1)) @ ''.'' @
     uitoa (unat (v4 ! 2)) @ ''.'' @ uitoa (unat (v4 ! 3))"

subsection \<open>\<open>lookupDomainBL\<close> (lookup.go)\<close>

text \<open>
  The inner loop \<open>for bit := 0; bit < 8; bit++\<close>, run over the remaining values of \<open>bit\<close>:
  \<open>True\<close> when it reaches \<open>return bl.ScoreAdj, nil\<close>.
\<close>

fun match_bits :: "byte \<Rightarrow> byte \<Rightarrow> nat list \<Rightarrow> bool" where
  "match_bits bits res [] = False"
| "match_bits bits res (b # rest) =
     (let n = (push_bit b 1 :: byte)
      in if bits AND n \<noteq> 0 \<and> res AND n \<noteq> 0 then True else match_bits bits res rest)"

text \<open>
  The loop \<open>for _, addr := range addrs\<close>. \<open>ip.To4()[3]\<close> indexes the nil slice when \<open>To4\<close>
  fails, which is the runtime panic.
\<close>

fun scan_addrs :: "parse_ip \<Rightarrow> List_cfg \<Rightarrow> string list \<Rightarrow> (go_int \<times> go_error option) outcome" where
  "scan_addrs P bl [] = Returned (0, None)"
| "scan_addrs P bl (addr # addrs) =
     (case P addr of
        None \<Rightarrow> Returned (0, Some errBadBLResponse)
      | Some ip \<Rightarrow>
          (case To4 ip of
             None \<Rightarrow> Panicked (IndexOutOfRange 3 0)
           | Some v4 \<Rightarrow>
               if match_bits (Bits bl) (v4 ! 3) [0..<8] then Returned (ScoreAdj bl, None)
               else scan_addrs P bl addrs))"

definition blDomain :: "string \<Rightarrow> List_cfg \<Rightarrow> string" where
  "blDomain d bl = d @ ''.'' @ Zone bl"

text \<open>\<open>e, ok := err.(*net.DNSError); ok && e.IsNotFound\<close>.\<close>

fun is_not_found :: "go_error \<Rightarrow> bool" where
  "is_not_found (DNSError nf tmp msg) = nf"
| "is_not_found e = False"

definition lookupDomainBL ::
  "parse_ip \<Rightarrow> resolver \<Rightarrow> string \<Rightarrow> List_cfg \<Rightarrow> (go_int \<times> go_error option) outcome" where
  "lookupDomainBL P r d bl =
     (case r (blDomain d bl) of
        (addrs, Some e) \<Rightarrow> if is_not_found e then Returned (0, None) else Returned (0, Some e)
      | (addrs, None) \<Rightarrow> scan_addrs P bl addrs)"

subsection \<open>\<open>cleanupDomains\<close> (lookup.go)\<close>

text \<open>
  \<open>unique := make(map[string]struct{})\<close> is a set of keys; it is kept as the list of its
  keys without repetition. \<open>map_insert\<close> is \<open>unique[domain] = struct{}{}\<close>.
\<close>

definition map_insert :: "string \<Rightarrow> string list \<Rightarrow> string list" where
  "map_insert k ks = (if k \<in> set ks then ks else ks @ [k])"

text \<open>\<open>v4[3], v4[2], v4[1], v4[0] = v4[0], v4[1], v4[2], v4[3]\<close>.\<close>

definition reverse_octets :: "byte list \<Rightarrow> byte list" where
  "reverse_octets v4 = v4[3 := v4 ! 0, 2 := v4 ! 1, 1 := v4 ! 2, 0 := v4 ! 3]"

text \<open>The first loop of \<open>cleanupDomains\<close>, with the map \<open>unique\<close> as accumulator.\<close>

fun unique_keys :: "parse_ip \<Rightarrow> public_suffix \<Rightarrow> string list \<Rightarrow> string list \<Rightarrow> string list" where
  "unique_keys P D [] unique = unique"
| "unique_keys P D (d # rest) unique =
     (if d = [] then unique_keys P D rest unique
      else case P d of
        Some ip \<Rightarrow>
          (case To4 ip of
             None \<Rightarrow> unique_keys P D rest unique
           | Some v4 \<Rightarrow> unique_keys P D rest (map_insert (IP_String (reverse_octets v4)) unique))
      | None \<Rightarrow>
          (case D d of
             Some base \<Rightarrow> unique_keys P D rest (map_insert base unique)
           | None \<Rightarrow> unique_keys P D rest (map_insert d unique)))"

text \<open>
  The second loop ranges over the map. Go leaves the iteration order of a map unspecified,
  so the order is a parameter \<open>ord\<close>: the keys as the runtime yields them. The value of
  \<open>cleanupDomains\<close> is the returned slice's contents.
\<close>

definition cleanupDomains ::
  "parse_ip \<Rightarrow> public_suffix \<Rightarrow> (string list \<Rightarrow> string list) \<Rightarrow> string list \<Rightarrow> string list" where
  "cleanupDomains P D ord domains = ord (unique_keys P D domains [])"

text \<open>
  The same function on memory. A slice is a window \<open>off, len, cap\<close> on the array \<open>ptr\<close> of
  the heap. \<open>append\<close> writes in place while the length is below the capacity and allocates
  a new array otherwise (Go leaves the new capacity to the runtime; doubling is taken here).
\<close>

record slice =
  ptr :: nat
  off :: nat
  len :: nat
  cap :: nat

record heap =
  arrays :: "nat \<Rightarrow> string list"
  next_free :: nat

definition slice_elems :: "heap \<Rightarrow> slice \<Rightarrow> string list" where
  "slice_elems h s = take (len s) (drop (off s) (arrays h (ptr s)))"

definition slice_ok :: "heap \<Rightarrow> slice \<Rightarrow> bool" where
  "slice_ok h s = (len s \<le> cap s \<and> off s + cap s \<le> length (arrays h (ptr s)) \<and> ptr s < next_free h)"

text \<open>Writing the elements \<open>ks\<close> into an array from index \<open>i\<close> on, one assignment each.\<close>

fun write_at :: "string list \<Rightarrow> nat \<Rightarrow> string list \<Rightarrow> string list" where
  "write_at arr i [] = arr"
| "write_at arr i (k # ks) = write_at (arr[i := k]) (Suc i) ks"

definition append_slice :: "heap \<times> slice \<Rightarrow> string \<Rightarrow> heap \<times> slice" where
  "append_slice hs x =
     (case hs of (h, s) \<Rightarrow>
        if len s < cap s then
          (h\<lparr>arrays := (arrays h)(ptr s := (arrays h (ptr s))[off s + len s := x])\<rparr>,
           s\<lparr>len := len s + 1\<rparr>)
        else
          (let n = max 1 (2 * cap s)
           in (h\<lparr>arrays := (arrays h)(next_free h := slice_elems h s @ x # replicate (n - len s - 1) []),
                 next_free := next_free h + 1\<rparr>,
               \<lparr>ptr = next_free h, off = 0, len = len s + 1, cap = n\<rparr>)))"

definition cleanupDomains_mem ::
  "parse_ip \<Rightarrow> public_suffix \<Rightarrow> (string list \<Rightarrow> string list) \<Rightarrow> heap \<Rightarrow> slice \<Rightarrow> heap \<times> slice" where
  "cleanupDomains_mem P D ord h domains =
     (let unique = unique_keys P D (slice_elems h domains) []
      in foldl append_slice (h, domains\<lparr>len := 0\<rparr>) (ord unique))"

subsection \<open>Library instances for concrete runs\<close>

text \<open>
  The libraries are parameters of every general statement. The instances below stand in for
  them where a statement is run on concrete strings, and they are exact only on part of the
  strings, as said with each.

  The decimal dotted-quad half of \<open>net.ParseIP\<close>: four fields separated by dots, each a
  decimal number up to 255 without a leading zero. Every other string is refused, so this
  instance is \<open>net.ParseIP\<close> on the strings without a colon and differs from it on every
  IPv6 literal, which \<open>net.ParseIP\<close> accepts (also the IPv4-mapped \<open>::ffff:a.b.c.d\<close>, which
  \<open>To4\<close> then converts).
\<close>

fun split_dot :: "string \<Rightarrow> string list" where
  "split_dot [] = [[]]"
| "split_dot (c # cs) =
     (if c = CHR ''.'' then [] # split_dot cs
      else case split_dot cs of f # fs \<Rightarrow> (c # f) # fs | [] \<Rightarrow> [[c]])"

definition is_digit :: "char \<Rightarrow> bool" where
  "is_digit c = (48 \<le> (of_char c :: nat) \<and> (of_char c :: nat) \<le> 57)"

definition dtoi :: "string \<Rightarrow> nat" where
  "dtoi s = foldl (\<lambda>n c. 10 * n + ((of_char c :: nat) - 48)) 0 s"

definition parse_octet :: "string \<Rightarrow> byte option" where
  "parse_octet s =
     (if s \<noteq> [] \<and> list_all is_digit s \<and> dtoi s \<le> 255 \<and> \<not> (1 < length s \<and> hd s = CHR ''0'')
      then Some (of_nat (dtoi s)) else None)"

definition ParseIP_dotted :: parse_ip where
  "ParseIP_dotted s =
     (case map parse_octet (split_dot s) of
        [Some a, Some b, Some c, Some d] \<Rightarrow> Some (IPv4 a b c d)
      | _ \<Rightarrow> None)"

text \<open>
  \<open>ParseIP_dotted\<close> extended by the IPv6 loopback literal \<open>::1\<close>, which \<open>net.ParseIP\<close> reads as
  fifteen zero bytes and a one. It is the one IPv6 literal this instance knows: it is
  \<open>net.ParseIP\<close> on \<open>::1\<close> and on the strings without a colon, and differs from it on every
  other IPv6 literal (\<open>2001:db8::1\<close> is no address for it).
\<close>

definition ParseIP_loopback6 :: parse_ip where
  "ParseIP_loopback6 s = (if s = ''::1'' then Some (replicate 15 0 @ [1]) else ParseIP_dotted s)"

text \<open>
  \<open>publicsuffix.Domain\<close> over an empty rule list, where the default rule \<open>*\<close> makes the last
  label the public suffix: the last two labels, and an error for a name of one label. It
  is the library on names whose public suffix has one label (\<open>www.mail.example.com\<close> gives
  \<open>example.com\<close>) and differs from it under a suffix of several labels
  (\<open>www.mail.example.co.uk\<close> gives \<open>co.uk\<close> here and \<open>example.co.uk\<close> in the library).
\<close>

definition Domain_default_rule :: public_suffix where
  "Domain_default_rule s =
     (let ls = split_dot s
      in if length ls < 2 \<or> [] \<in> set ls then None
         else Some (ls ! (length ls - 2) @ ''.'' @ ls ! (length ls - 1)))"

text \<open>A heap with one array of four raw strings, and the caller's slice over all of it.\<close>

definition heap_example :: heap where
  "heap_example =
     \<lparr>arrays = (\<lambda>p. if p = 0 then [''1.2.3.4'', [], ''www.example.com'', ''example.com''] else []),
      next_free = 1\<rparr>"

definition slice_example :: slice where
  "slice_example = \<lparr>ptr = 0, off = 0, len = 4, cap = 4\<rparr>"

text \<open>\<open>mockBLResolver\<close> of lookup\_test.go.\<close>

definition mockBLResolver :: "string \<Rightarrow> go_error option \<Rightarrow> resolver" where
  "mockBLResolver a e host = (if e \<noteq> None then ([], e) else ([a], None))"

subsection \<open>\<open>lookupDomainBLs\<close> (lookup.go)\<close>

text \<open>\<open>type lookup struct { domain string; bl List }\<close> and
  \<open>type result struct { zone string; score int; err error }\<close>.\<close>

record lookup =
  domain :: string
  bl :: List_cfg

record result =
  zone :: string
  score :: go_int
  err :: "go_error option"

text \<open>
  The function starts one collector goroutine and \<open>concurrency\<close> worker goroutines and then
  sends the jobs itself. Each goroutine is a program counter:
  \<^item> a worker waits in its \<open>select\<close> (\<open>AtSelect\<close>), has received a job and is about to call
    \<open>lookupDomainBL\<close> (\<open>GotJob\<close>), waits in \<open>resultC <- result{...}\<close> (\<open>Sending\<close>), or has
    returned and run \<open>wg.Done()\<close> (\<open>Done\<close>). The body of a worker is a single \<open>select\<close>,
    not a loop: there is no way back to \<open>AtSelect\<close>;
  \<^item> the collector waits in \<open>range resultC\<close> (\<open>Receiving\<close>), holds a result it has not
    merged yet (\<open>Holding\<close>), or has left the loop and closed \<open>doneScores\<close> (\<open>Exited\<close>);
  \<^item> the caller's goroutine is in the two nested sending loops or just before
    \<open>close(lookupC)\<close> (\<open>Producing\<close>), in \<open>wg.Wait()\<close> (\<open>Waiting\<close>), in \<open><-doneScores\<close> after
    \<open>close(resultC)\<close> (\<open>Draining\<close>), or has returned (\<open>Finished\<close>).
\<close>

datatype worker = AtSelect | GotJob lookup | Sending result | Done

datatype collector_pc = Receiving | Holding result | Exited

datatype main_pc = Producing | Waiting | Draining | Finished

text \<open>
  The state: the jobs still to be sent, the program counters, the shared variables
  \<open>score\<close>, \<open>hits\<close> and \<open>err\<close>, and whether \<open>ctx\<close> is cancelled. \<open>queried\<close> and \<open>err_writes\<close>
  are history variables, never read by a step: the calls of \<open>lookupDomainBL\<close> made so far
  (each makes exactly one \<open>LookupHost\<close> call) and the values assigned to \<open>err\<close> so far.
\<close>

record state =
  pending :: "lookup list"
  workers :: "worker list"
  collector :: collector_pc
  main :: main_pc
  score_var :: go_int
  hits_var :: "string list"
  err_var :: "go_error option"
  ctx_done :: bool
  queried :: "lookup list"
  err_writes :: "go_error list"

text \<open>
  The jobs in the order of the two nested loops, and the number of workers started after
  \<open>if concurrency > lookups { concurrency = lookups }\<close>: the iterations of
  \<open>for i := 0; i < concurrency; i++\<close>, none for a ceiling below 1. The ceiling and the
  lengths stay far from the bounds of \<open>int\<close> and are unbounded integers here.
\<close>

definition jobs :: "string list \<Rightarrow> List_cfg list \<Rightarrow> lookup list" where
  "jobs ds bls = concat (map (\<lambda>d. map (\<lambda>b. \<lparr>domain = d, bl = b\<rparr>) bls) ds)"

definition worker_count :: "int \<Rightarrow> nat \<Rightarrow> nat" where
  "worker_count concurrency lookups =
     nat (if concurrency > int lookups then int lookups else concurrency)"

definition lookupDomainBLs_init ::
  "parse_ip \<Rightarrow> public_suffix \<Rightarrow> (string list \<Rightarrow> string list) \<Rightarrow>
   string list \<Rightarrow> List_cfg list \<Rightarrow> int \<Rightarrow> state" where
  "lookupDomainBLs_init P D ord domains bls concurrency =
     (let ds = cleanupDomains P D ord domains;
          lookups = length ds * length bls
      in \<lparr>pending = jobs ds bls,
          workers = replicate (worker_count concurrency lookups) AtSelect,
          collector = Receiving, main = Producing,
          score_var = 0, hits_var = [], err_var = None, ctx_done = False,
          queried = [], err_writes = []\<rparr>)"

text \<open>The value a receive from the closed \<open>lookupC\<close> yields.\<close>

definition zero_lookup :: lookup where
  "zero_lookup = \<lparr>domain = [], bl = \<lparr>Zone = [], Bits = 0, ScoreAdj = 0\<rparr>\<rparr>"

text \<open>The body of the collector's loop.\<close>

definition merge :: "result \<Rightarrow> state \<Rightarrow> state" where
  "merge res s =
     (let s1 = (case err res of
                  Some e \<Rightarrow> s\<lparr>err_var := Some (Errorf_zone (zone res) e),
                              err_writes := err_writes s @ [Errorf_zone (zone res) e]\<rparr>
                | None \<Rightarrow> s)
      in if score res \<noteq> 0
         then s1\<lparr>score_var := score_var s1 + score res, hits_var := hits_var s1 @ [zone res]\<rparr>
         else s1)"

text \<open>
  The atomic steps. The channels are unbuffered, so a send and its receive are one step:
  \<^item> \<open>Send i\<close>: the caller sends the next job on \<open>lookupC\<close> and worker \<open>i\<close> receives it;
  \<^item> \<open>RecvClosed i\<close>: worker \<open>i\<close> receives from \<open>lookupC\<close> after it was closed;
  \<^item> \<open>SeeCancel i\<close>: worker \<open>i\<close> takes the \<open>ctx.Done()\<close> branch, sets \<open>err\<close> and returns;
  \<^item> \<open>Call i\<close>: worker \<open>i\<close> calls \<open>lookupDomainBL\<close>; a panic is recovered by the deferred
    function, which sets \<open>err\<close>, and the worker returns without a result;
  \<^item> \<open>Deliver i\<close>: worker \<open>i\<close> sends its result on \<open>resultC\<close>, the collector receives it;
  \<^item> \<open>Merge\<close>: the collector runs the body of its loop on the result it holds;
  \<^item> \<open>CloseJobs\<close>: the caller has sent every job and closes \<open>lookupC\<close>;
  \<^item> \<open>WaitAll\<close>: \<open>wg.Wait()\<close> returns and the caller closes \<open>resultC\<close>;
  \<^item> \<open>CollectorExit\<close>: the collector finds \<open>resultC\<close> closed and closes \<open>doneScores\<close>;
  \<^item> \<open>Return\<close>: the caller receives from \<open>doneScores\<close> and returns;
  \<^item> \<open>Cancel\<close>: the environment cancels \<open>ctx\<close>.
  A step that is not enabled in a state gives \<open>None\<close>.
\<close>

datatype action =
    Send nat | RecvClosed nat | SeeCancel nat | Call nat | Deliver nat
  | Merge | CloseJobs | WaitAll | CollectorExit | Return | Cancel

definition at_select :: "state \<Rightarrow> nat \<Rightarrow> bool" where
  "at_select s i = (i < length (workers s) \<and> workers s ! i = AtSelect)"

fun step :: "parse_ip \<Rightarrow> resolver \<Rightarrow> action \<Rightarrow> state \<Rightarrow> state option" where
  "step P r (Send i) s =
     (case pending s of
        [] \<Rightarrow> None
      | j # js \<Rightarrow>
          if main s = Producing \<and> at_select s i
          then Some (s\<lparr>pending := js, workers := (workers s)[i := GotJob j]\<rparr>)
          else None)"
| "step P r (RecvClosed i) s =
     (if main s \<noteq> Producing \<and> at_select s i
      then Some (s\<lparr>workers := (workers s)[i := GotJob zero_lookup]\<rparr>)
      else None)"
| "step P r (SeeCancel i) s =
     (if ctx_done s \<and> at_select s i
      then Some (s\<lparr>workers := (workers s)[i := Done],
                   err_var := Some context_Canceled,
                   err_writes := err_writes s @ [context_Canceled]\<rparr>)
      else None)"
| "step P r (Call i) s =
     (if i < length (workers s) then
        (case workers s ! i of
           GotJob j \<Rightarrow>
             (case lookupDomainBL P r (domain j) (bl j) of
                Returned (sc, e) \<Rightarrow>
                  Some (s\<lparr>workers := (workers s)[i := Sending \<lparr>zone = Zone (bl j), score = sc, err = e\<rparr>],
                          queried := queried s @ [j]\<rparr>)
              | Panicked pv \<Rightarrow>
                  Some (s\<lparr>workers := (workers s)[i := Done],
                          err_var := Some (Errorf_recovered pv),
                          err_writes := err_writes s @ [Errorf_recovered pv],
                          queried := queried s @ [j]\<rparr>))
         | _ \<Rightarrow> None)
      else None)"
| "step P r (Deliver i) s =
     (if i < length (workers s) \<and> collector s = Receiving then
        (case workers s ! i of
           Sending res \<Rightarrow> Some (s\<lparr>workers := (workers s)[i := Done], collector := Holding res\<rparr>)
         | _ \<Rightarrow> None)
      else None)"
| "step P r Merge s =
     (case collector s of
        Holding res \<Rightarrow> Some (merge res (s\<lparr>collector := Receiving\<rparr>))
      | _ \<Rightarrow> None)"
| "step P r CloseJobs s =
     (if main s = Producing \<and> pending s = [] then Some (s\<lparr>main := Waiting\<rparr>) else None)"
| "step P r WaitAll s =
     (if main s = Waiting \<and> list_all (\<lambda>w. w = Done) (workers s)
      then Some (s\<lparr>main := Draining\<rparr>) else None)"
| "step P r CollectorExit s =
     (if main s = Draining \<and> collector s = Receiving then Some (s\<lparr>collector := Exited\<rparr>) else None)"
| "step P r Return s =
     (if main s = Draining \<and> collector s = Exited then Some (s\<lparr>main := Finished\<rparr>) else None)"
| "step P r Cancel s =
     (if ctx_done s then None else Some (s\<lparr>ctx_done := True\<rparr>))"

text \<open>A schedule is the interleaving the Go scheduler picks: the list of the steps taken.\<close>

fun exec :: "parse_ip \<Rightarrow> resolver \<Rightarrow> action list \<Rightarrow> state \<Rightarrow> state option" where
  "exec P r [] s = Some s"
| "exec P r (a # as) s = (case step P r a s of None \<Rightarrow> None | Some s' \<Rightarrow> exec P r as s')"

text \<open>
  \<open>lookupDomainBLs\<close> under a schedule: \<open>Some (score, hits, err)\<close> when the schedule is a run
  of the function up to its \<open>return score, hits, err\<close>, and \<open>None\<close> when it is not.
  The call returns exactly if some schedule gives \<open>Some\<close>.
\<close>

definition lookupDomainBLs ::
  "parse_ip \<Rightarrow> public_suffix \<Rightarrow> (string list \<Rightarrow> string list) \<Rightarrow> resolver \<Rightarrow>
   string list \<Rightarrow> List_cfg list \<Rightarrow> int \<Rightarrow> action list \<Rightarrow>
   (go_int \<times> string list \<times> go_error option) option" where
  "lookupDomainBLs P D ord r domains bls concurrency sched =
     (case exec P r sched (lookupDomainBLs_init P D ord domains bls concurrency) of
        None \<Rightarrow> None
      | Some s \<Rightarrow> if main s = Finished then Some (score_var s, hits_var s, err_var s) else None)"

text \<open>The \<open>lookupDomainBL\<close> calls (DNS lookups) a schedule has made, as far as it can be
  run: a schedule with a step that is not enabled stops there.\<close>

fun lookups_made :: "parse_ip \<Rightarrow> resolver \<Rightarrow> action list \<Rightarrow> state \<Rightarrow> lookup list" where
  "lookups_made P r [] s = queried s"
| "lookups_made P r (a # as) s =
     (case step P r a s of None \<Rightarrow> queried s | Some s' \<Rightarrow> lookups_made P r as s')"

text \<open>
  The same function on memory: \<open>domains\<close> is the caller's slice on the heap. The first
  statement, \<open>domains = cleanupDomains(domains)\<close>, rewrites the caller's array before any
  goroutine is started; the jobs are then read from the slice that \<open>cleanupDomains\<close> returned,
  and \<open>len(domains)\<close> is its length. The heap that is returned is the caller's memory from
  that statement on, whether or not the schedule reaches the \<open>return\<close>.
\<close>

definition lookupDomainBLs_init_mem ::
  "parse_ip \<Rightarrow> public_suffix \<Rightarrow> (string list \<Rightarrow> string list) \<Rightarrow>
   heap \<Rightarrow> slice \<Rightarrow> List_cfg list \<Rightarrow> int \<Rightarrow> heap \<times> state" where
  "lookupDomainBLs_init_mem P D ord h domains bls concurrency =
     (case cleanupDomains_mem P D ord h domains of
        (h', ds) \<Rightarrow>
          (let lookups = len ds * length bls
           in (h', \<lparr>pending = jobs (slice_elems h' ds) bls,
                     workers = replicate (worker_count concurrency lookups) AtSelect,
                     collector = Receiving, main = Producing,
                     score_var = 0, hits_var = [], err_var = None, ctx_done = False,
                     queried = [], err_writes = []\<rparr>)))"

definition lookupDomainBLs_mem ::
  "parse_ip \<Rightarrow> public_suffix \<Rightarrow> (string list \<Rightarrow> string list) \<Rightarrow> resolver \<Rightarrow>
   heap \<Rightarrow> slice \<Rightarrow> List_cfg list \<Rightarrow> int \<Rightarrow> action list \<Rightarrow>
   heap \<times> (go_int \<times> string list \<times> go_error option) option" where
  "lookupDomainBLs_mem P D ord r h domains bls concurrency sched =
     (case lookupDomainBLs_init_mem P D ord h domains bls concurrency of
        (h', s0) \<Rightarrow>
          (h', case exec P r sched s0 of
                 None \<Rightarrow> None
               | Some s \<Rightarrow>
                   if main s = Finished then Some (score_var s, hits_var s, err_var s) else None))"

subsection \<open>\<open>Check.Init\<close> and \<open>state.CheckBody\<close> (domainbl.go)\<close>

record Check =
  inlineBls :: "string list"
  bls :: "List_cfg list"
  quarantineThres :: go_int
  rejectThres :: go_int

text \<open>
  Modelled from the spec: \<open>config.Map.Int\<close> of the host framework is not among the sources.
  A directive of the configuration block gives its value, and a directive that is absent
  gives the default passed to \<open>cfg.Int\<close>.
\<close>

definition cfg_Int :: "(string \<rightharpoonup> go_int) \<Rightarrow> string \<Rightarrow> go_int \<Rightarrow> go_int" where
  "cfg_Int cfg name dflt = (case cfg name of Some v \<Rightarrow> v | None \<Rightarrow> dflt)"

text \<open>
  \<open>Check.Init\<close> up to the end of its loop over the inline arguments (domainbl.go:81-94), on
  the path where \<open>cfg.Process\<close> returns no error: the two thresholds, and one list with the
  zero mask and the zero score for each inline argument, appended to what \<open>c.bls\<close> holds when
  \<open>Init\<close> is called (nothing, after \<open>New\<close>).
\<close>

definition Init :: "(string \<rightharpoonup> go_int) \<Rightarrow> Check \<Rightarrow> Check" where
  "Init cfg c =
     c\<lparr>quarantineThres := cfg_Int cfg ''quarantine_threshold'' 1,
       rejectThres := cfg_Int cfg ''reject_threshold'' 9999,
       bls := bls c @ map (\<lambda>z. \<lparr>Zone = z, Bits = 0, ScoreAdj = 0\<rparr>) (inlineBls c)\<rparr>"

text \<open>
  The rest of \<open>Check.Init\<close> (domainbl.go:96-100): \<open>readListCfg\<close> for each configuration block
  that \<open>cfg.Process\<close> left over, in turn. A block is given by what its \<open>readListCfg\<close> does:
  the lists it appends to \<open>c.bls\<close> (one for the block's name and one for each argument), or
  the error it returns, which ends \<open>Init\<close>. The lists of the blocks so come after the inline
  ones. \<open>Check_Init\<close> is the whole function; \<open>perr\<close> is the error of \<open>cfg.Process\<close>, if any.
\<close>

fun read_blocks :: "(go_error + List_cfg list) list \<Rightarrow> Check \<Rightarrow> go_error + Check" where
  "read_blocks [] c = Inr c"
| "read_blocks (Inl e # rest) c = Inl e"
| "read_blocks (Inr ls # rest) c = read_blocks rest (c\<lparr>bls := bls c @ ls\<rparr>)"

definition Check_Init ::
  "(string \<rightharpoonup> go_int) \<Rightarrow> go_error option \<Rightarrow> (go_error + List_cfg list) list \<Rightarrow> Check \<Rightarrow>
   go_error + Check" where
  "Check_Init cfg perr blocks c =
     (case perr of
        Some e \<Rightarrow> Inl e
      | None \<Rightarrow> read_blocks blocks (Init cfg c))"

text \<open>\<open>const concurrency = 8\<close>: the ceiling \<open>CheckBody\<close> passes to \<open>lookupDomainBLs\<close>.\<close>

definition concurrency :: int where
  "concurrency = 8"

text \<open>
  The end of \<open>CheckBody\<close>, from the return of \<open>lookupDomainBLs\<close> on. \<open>modconfig.FailAction\<close> is
  the pair of flags the code sets; the result is the empty \<open>module.CheckResult{}\<close>, the
  451 result that carries the lookup error, or \<open>action.Apply\<close> of the 550 result with its
  reason text and the \<open>Misc\<close> fields (score, threshold crossed, hits).
\<close>

record FailAction =
  Quarantine :: bool
  Reject :: bool

datatype check_result =
    Empty_result
  | Internal_error go_error
  | Apply_action FailAction string go_int go_int "string list"

definition CheckBody_decide :: "Check \<Rightarrow> go_int \<times> string list \<times> go_error option \<Rightarrow> check_result" where
  "CheckBody_decide c res =
     (case res of
        (sc, hs, Some e) \<Rightarrow> Internal_error e
      | (sc, hs, None) \<Rightarrow>
          if sint (rejectThres c) \<le> sint sc then
            Apply_action \<lparr>Quarantine = False, Reject = True\<rparr>
              ''bl score exceeds reject threshold'' sc (rejectThres c) hs
          else if sint (quarantineThres c) \<le> sint sc then
            Apply_action \<lparr>Quarantine = True, Reject = False\<rparr>
              ''bl score exceeds quarantine threshold'' sc (quarantineThres c) hs
          else Empty_result)"

subsection \<open>Notions of the specification\<close>

text \<open>
  The last octet of an address that is an IPv4 literal for the code (\<open>ParseIP\<close> accepts it
  and \<open>To4\<close> gives four bytes); a bit position set in both the mask and an octet; an
  address that is an IP literal but no IPv4 one.
\<close>

definition last_octet :: "parse_ip \<Rightarrow> string \<Rightarrow> byte option" where
  "last_octet P a =
     (case P a of
        None \<Rightarrow> None
      | Some ip \<Rightarrow> (case To4 ip of None \<Rightarrow> None | Some v4 \<Rightarrow> Some (v4 ! 3)))"

definition bits_overlap :: "byte \<Rightarrow> byte \<Rightarrow> bool" where
  "bits_overlap m x = (\<exists>b<8. bit m b \<and> bit x b)"

definition is_ipv6 :: "parse_ip \<Rightarrow> string \<Rightarrow> bool" where
  "is_ipv6 P a = (case P a of None \<Rightarrow> False | Some ip \<Rightarrow> To4 ip = None)"

text \<open>
  The key \<open>cleanupDomains\<close> stores for one raw string, in the words of the specification:
  nothing for the empty string and for an IP literal that is no IPv4 address, the reversed
  octets for an IPv4 address, and the registrable domain, or the string itself when the
  suffix resolution fails, for every other string.
\<close>

definition normalized :: "parse_ip \<Rightarrow> public_suffix \<Rightarrow> string \<Rightarrow> string option" where
  "normalized P D d =
     (if d = [] then None
      else case P d of
        Some ip \<Rightarrow> (case To4 ip of None \<Rightarrow> None | Some v4 \<Rightarrow> Some (IP_String (rev v4)))
      | None \<Rightarrow> Some (case D d of Some base \<Rightarrow> base | None \<Rightarrow> d))"

text \<open>A resolver that answers every host with the same addresses and error.\<close>

definition staticResolver :: "string list \<Rightarrow> go_error option \<Rightarrow> resolver" where
  "staticResolver addrs e host = (addrs, e)"

text \<open>What one job adds to the score: the score \<open>lookupDomainBL\<close> returns, and nothing when
  it panics (the worker then sends no result).\<close>

definition job_score :: "parse_ip \<Rightarrow> resolver \<Rightarrow> lookup \<Rightarrow> go_int" where
  "job_score P r j =
     (case lookupDomainBL P r (domain j) (bl j) of
        Returned (sc, e) \<Rightarrow> sc
      | Panicked pv \<Rightarrow> 0)"

subsection \<open>Measures and invariants of the engine\<close>

text \<open>
  The job a worker holds between its receive and its call, the result it holds between
  its call and its send, and the result the collector holds between its receive and its
  merge; summed over the goroutines of a state.
\<close>

fun job_of :: "worker \<Rightarrow> lookup multiset" where
  "job_of (GotJob j) = {#j#}"
| "job_of w = {#}"

fun result_of :: "worker \<Rightarrow> result multiset" where
  "result_of (Sending res) = {#res#}"
| "result_of w = {#}"

fun held_by :: "collector_pc \<Rightarrow> result multiset" where
  "held_by (Holding res) = {#res#}"
| "held_by c = {#}"

definition jobs_held :: "state \<Rightarrow> lookup multiset" where
  "jobs_held s = (\<Sum>w\<in>#mset (workers s). job_of w)"

definition results_held :: "state \<Rightarrow> result multiset" where
  "results_held s = (\<Sum>w\<in>#mset (workers s). result_of w) + held_by (collector s)"

definition at_select_count :: "state \<Rightarrow> nat" where
  "at_select_count s = count (mset (workers s)) AtSelect"

text \<open>
  Counting: a worker leaves its \<open>select\<close> at most once, so the jobs sent never outnumber the
  workers, and a worker still in its \<open>select\<close> has a job waiting for it; the caller is past
  \<open>close(lookupC)\<close> only with every job sent, and past \<open>wg.Wait()\<close> only with every worker
  done. \<open>J\<close> is the list of all jobs of the call.
\<close>

definition inv_count :: "lookup list \<Rightarrow> state \<Rightarrow> bool" where
  "inv_count J s =
     (at_select_count s + length J \<le> length (workers s) + length (pending s)
      \<and> at_select_count s \<le> length (pending s)
      \<and> (main s \<noteq> Producing \<longrightarrow> pending s = [])
      \<and> (main s = Draining \<or> main s = Finished \<longrightarrow> (\<forall>w\<in>#mset (workers s). w = Done))
      \<and> (main s = Finished \<longrightarrow> collector s = Exited)
      \<and> length (queried s) + at_select_count s + size (jobs_held s) \<le> length (workers s))"

text \<open>Every job is still to be sent, in a worker's hands, or looked up; never two of these.\<close>

definition inv_jobs :: "lookup list \<Rightarrow> state \<Rightarrow> bool" where
  "inv_jobs J s = (mset (pending s) + jobs_held s + mset (queried s) = mset J)"

text \<open>The score and the hits merged so far, with the results still on their way, are the
  scores and the zones of the lookups made so far.\<close>

definition inv_results :: "parse_ip \<Rightarrow> resolver \<Rightarrow> state \<Rightarrow> bool" where
  "inv_results P r s =
     (score_var s + (\<Sum>res\<in>#results_held s. score res) = (\<Sum>j\<in>#mset (queried s). job_score P r j)
      \<and> mset (hits_var s) + image_mset zone (filter_mset (\<lambda>res. score res \<noteq> 0) (results_held s))
          = image_mset (\<lambda>j. Zone (bl j)) (filter_mset (\<lambda>j. job_score P r j \<noteq> 0) (mset (queried s)))
      \<and> size (results_held s) \<le> length (queried s))"

text \<open>The variable \<open>err\<close> holds the value assigned to it last.\<close>

definition inv_err :: "state \<Rightarrow> bool" where
  "inv_err s = (err_var s = (if err_writes s = [] then None else Some (last (err_writes s))))"

text \<open>The states of a call without jobs: no worker, nothing looked up, nothing merged.\<close>

definition inv_idle :: "state \<Rightarrow> bool" where
  "inv_idle s =
     (pending s = [] \<and> workers s = [] \<and> (collector s = Receiving \<or> collector s = Exited)
      \<and> queried s = [] \<and> score_var s = 0 \<and> hits_var s = [] \<and> err_var s = None
      \<and> err_writes s = [])"

text \<open>How far a call without jobs has come: one for each step it can take.\<close>

fun main_rank :: "main_pc \<Rightarrow> nat" where
  "main_rank Producing = 0"
| "main_rank Waiting = 1"
| "main_rank Draining = 2"
| "main_rank Finished = 3"

definition rank :: "state \<Rightarrow> nat" where
  "rank s = main_rank (main s) + (if collector s = Exited then 1 else 0) + (if ctx_done s then 1 else 0)"

subsection \<open>Inputs of concrete runs\<close>

definition nine_domains :: "string list" where
  "nine_domains =
     [''a.example'', ''b.example'', ''c.example'', ''d.example'', ''e.example'',
      ''f.example'', ''g.example'', ''h.example'', ''i.example'']"

definition entry_a :: List_cfg where
  "entry_a = \<lparr>Zone = ''a.bl.example'', Bits = 2, ScoreAdj = 1\<rparr>"

definition entry_b :: List_cfg where
  "entry_b = \<lparr>Zone = ''b.bl.example'', Bits = 2, ScoreAdj = 5\<rparr>"

text \<open>A resolver that finds no host, one that lists every host, and one that fails.\<close>

definition resolver_miss :: resolver where
  "resolver_miss = mockBLResolver [] (Some (DNSError True False ''no such host''))"

definition resolver_hit :: resolver where
  "resolver_hit = mockBLResolver ''127.0.0.2'' None"

definition resolver_fail :: resolver where
  "resolver_fail = mockBLResolver [] (Some (DNSError False True ''server misbehaving''))"

text \<open>A schedule in which the workers 0 to 7 each take a job, look it up and deliver the
  result, one after the other.\<close>

definition eight_rounds :: "action list" where
  "eight_rounds = concat (map (\<lambda>i. [Send i, Call i, Deliver i, Merge]) [0..<8])"

text \<open>A schedule that lets the workers \<open>k\<close>, \<open>k + 1\<close>, ... finish the jobs \<open>js\<close> they hold, one
  after the other: the call, and the delivery and the merge of the result if there is one.\<close>

fun rounds :: "parse_ip \<Rightarrow> resolver \<Rightarrow> nat \<Rightarrow> lookup list \<Rightarrow> action list" where
  "rounds P r k [] = []"
| "rounds P r k (j # js) =
     (case lookupDomainBL P r (domain j) (bl j) of
        Returned p \<Rightarrow> [Call k, Deliver k, Merge]
      | Panicked pv \<Rightarrow> [Call k]) @ rounds P r (Suc k) js"

text \<open>
  An upper bound of the steps a call can still take: four for a worker in its \<open>select\<close>
  (receive, call, send, and the merge of its result), less for a worker further on; what
  the collector and the caller have before them; and one for the cancellation.
\<close>

fun worker_weight :: "worker \<Rightarrow> nat" where
  "worker_weight AtSelect = 4"
| "worker_weight (GotJob j) = 3"
| "worker_weight (Sending res) = 2"
| "worker_weight Done = 0"

fun collector_weight :: "collector_pc \<Rightarrow> nat" where
  "collector_weight Receiving = 1"
| "collector_weight (Holding res) = 2"
| "collector_weight Exited = 0"

definition steps_left :: "state \<Rightarrow> nat" where
  "steps_left s =
     (\<Sum>w\<in>#mset (workers s). worker_weight w) + collector_weight (collector s)
       + (3 - main_rank (main s)) + (if ctx_done s then 0 else 1)"

text \<open>
  While \<open>ctx\<close> is not cancelled, a worker leaves its \<open>select\<close> only with a job: the workers
  still in their \<open>select\<close> are the workers started less the jobs sent. And the collector
  leaves its loop only after \<open>close(resultC)\<close>.
\<close>

definition inv_live :: "lookup list \<Rightarrow> state \<Rightarrow> bool" where
  "inv_live J s =
     (\<not> ctx_done s
      \<and> at_select_count s + length J = length (workers s) + length (pending s)
      \<and> (collector s = Exited \<longrightarrow> main s = Draining \<or> main s = Finished))"


section \<open>The single lookup: \<open>lookupDomainBL\<close>\<close>

lemma To4_length: "To4 ip = Some v4 \<Longrightarrow> length v4 = 4"
  by (auto simp: To4_def split: if_splits)

lemma match_bits_set:
  "match_bits m x bs = (\<exists>b\<in>set bs. m AND push_bit b 1 \<noteq> 0 \<and> x AND push_bit b 1 \<noteq> 0)"
  by (induction bs) (auto simp: Let_def)

lemma and_bit_mask: "((m :: byte) AND push_bit b 1 \<noteq> 0) = bit m b"
  by (simp add: push_bit_of_1 and_exp_eq_0_iff_not_bit)

lemma match_bits_overlap: "match_bits m x [0..<8] = bits_overlap m x"
  unfolding match_bits_set and_bit_mask bits_overlap_def by auto

lemma bits_overlap_AND: "bits_overlap m x = (m AND x \<noteq> 0)"
proof
  assume "bits_overlap m x"
  then obtain b where "bit (m AND x) b" by (auto simp: bits_overlap_def bit_and_iff)
  then show "m AND x \<noteq> 0" by auto
next
  assume "m AND x \<noteq> 0"
  then obtain b where b: "bit (m AND x) b" by (auto simp: bit_eq_iff)
  then have "b < 8" using bit_imp_le_length [of "m AND x" b] by simp
  with b show "bits_overlap m x" by (auto simp: bits_overlap_def bit_and_iff)
qed

lemma scan_addrs_Cons_octet:
  "last_octet P a = Some x \<Longrightarrow>
   scan_addrs P entry (a # addrs) =
     (if bits_overlap (Bits entry) x then Returned (ScoreAdj entry, None)
      else scan_addrs P entry addrs)"
  by (auto simp: last_octet_def match_bits_overlap split: option.splits)

lemma scan_addrs_ipv4:
  "\<forall>a\<in>set addrs. last_octet P a \<noteq> None \<Longrightarrow>
   scan_addrs P entry addrs =
     Returned (if \<exists>a\<in>set addrs. \<exists>x. last_octet P a = Some x \<and> bits_overlap (Bits entry) x
               then ScoreAdj entry else 0, None)"
proof (induction addrs)
  case Nil
  show ?case by simp
next
  case (Cons a addrs)
  from Cons.prems obtain x where x: "last_octet P a = Some x" by auto
  from Cons.prems have "\<forall>a\<in>set addrs. last_octet P a \<noteq> None" by simp
  with Cons.IH have IH: "scan_addrs P entry addrs =
     Returned (if \<exists>a\<in>set addrs. \<exists>x. last_octet P a = Some x \<and> bits_overlap (Bits entry) x
               then ScoreAdj entry else 0, None)" by simp
  show ?case
    unfolding scan_addrs_Cons_octet [OF x] IH using x by auto
qed

lemma scan_addrs_malformed:
  "\<forall>a\<in>set pre. \<exists>x. last_octet P a = Some x \<and> \<not> bits_overlap (Bits entry) x \<Longrightarrow> P a = None \<Longrightarrow>
   scan_addrs P entry (pre @ a # post) = Returned (0, Some errBadBLResponse)"
proof (induction pre)
  case Nil
  then show ?case by simp
next
  case (Cons b pre)
  from Cons.prems obtain x where x: "last_octet P b = Some x" "\<not> bits_overlap (Bits entry) x"
    by auto
  from Cons have IH: "scan_addrs P entry (pre @ a # post) = Returned (0, Some errBadBLResponse)"
    by simp
  show ?case
    using scan_addrs_Cons_octet [OF x(1), of entry "pre @ a # post"] x(2) IH by simp
qed

lemma parse_254: "ParseIP_dotted ''127.0.0.254'' = Some (IPv4 127 0 0 254)"
  by code_simp
lemma parse_64: "ParseIP_dotted ''127.0.0.64'' = Some (IPv4 127 0 0 64)"
  by code_simp
lemma To4_IPv4: "To4 (IPv4 a b c d) = Some [a, b, c, d]"
  by (simp add: To4_def IPv4_def nth_append)

lemma bits_overlap_128_254: "bits_overlap 128 254"
  by (simp add: bits_overlap_AND)

lemma bits_overlap_128_64: "\<not> bits_overlap 128 64"
  by (simp add: bits_overlap_AND)

lemma last_octet_254: "last_octet ParseIP_dotted ''127.0.0.254'' = Some 254"
  by (simp add: last_octet_def parse_254 To4_IPv4)

lemma last_octet_64: "last_octet ParseIP_dotted ''127.0.0.64'' = Some 64"
  by (simp add: last_octet_def parse_64 To4_IPv4)

lemma lookupDomainBL_success:
  "r (blDomain d entry) = (addrs, None) \<Longrightarrow> lookupDomainBL P r d entry = scan_addrs P entry addrs"
  by (simp add: lookupDomainBL_def)

text \<open>The four cases of \<open>Test_lookupDomainBL\<close> (lookup\_test.go), on the model.\<close>

lemma Test_lookupDomainBL:
  "lookupDomainBL ParseIP_dotted (mockBLResolver ''127.0.0.254'' None) ''turrible-spammer.example.org''
     \<lparr>Zone = ''domainbl.example.org'', Bits = 128, ScoreAdj = 1\<rparr> = Returned (1, None)"
  "lookupDomainBL ParseIP_dotted (mockBLResolver ''127.0.0.64'' None) ''turrible-spammer.example.org''
     \<lparr>Zone = ''domainbl.example.org'', Bits = 128, ScoreAdj = 1\<rparr> = Returned (0, None)"
  "lookupDomainBL ParseIP_dotted (mockBLResolver [] (Some (DNSError True False []))) ''goodguy.example.org''
     \<lparr>Zone = ''domainbl.example.org'', Bits = 128, ScoreAdj = 1\<rparr> = Returned (0, None)"
  "lookupDomainBL ParseIP_dotted (mockBLResolver [] (Some (DNSError False True []))) ''failure.example.org''
     \<lparr>Zone = ''domainbl.example.org'', Bits = 128, ScoreAdj = 1\<rparr>
     = Returned (0, Some (DNSError False True []))"
  by (simp_all add: lookupDomainBL_def mockBLResolver_def scan_addrs_Cons_octet [OF last_octet_254]
      scan_addrs_Cons_octet [OF last_octet_64] bits_overlap_128_254 bits_overlap_128_64
      del: scan_addrs.simps(2))

text \<open>
  C3. When the resolution succeeds and every returned address is an IPv4 literal, the job
  returns the entry's score weight \<open>ScoreAdj\<close> if some returned address has, in its last
  octet, one of the 8 bit positions set that is also set in the entry's mask \<open>Bits\<close>, and
  returns 0 otherwise; in both cases without an error. The result is one weight or
  nothing, however many bits or addresses match, so for a weight other than 0 the job
  returns the weight exactly if a bit position matches. With the mask 128, the last octet
  254 scores the weight and the last octet 64 scores 0.
\<close>

theorem lookupDomainBL_scores_on_common_bit:
  assumes "r (blDomain d entry) = (addrs, None)"
    and "\<forall>a\<in>set addrs. last_octet P a \<noteq> None"
  shows "lookupDomainBL P r d entry =
           Returned (if \<exists>a\<in>set addrs. \<exists>x. last_octet P a = Some x \<and> bits_overlap (Bits entry) x
                     then ScoreAdj entry else 0, None)
       \<and> (ScoreAdj entry \<noteq> 0 \<longrightarrow>
            (lookupDomainBL P r d entry = Returned (ScoreAdj entry, None)) =
            (\<exists>a\<in>set addrs. \<exists>x. last_octet P a = Some x \<and> bits_overlap (Bits entry) x))
       \<and> lookupDomainBL ParseIP_dotted (mockBLResolver ''127.0.0.254'' None) d'
            \<lparr>Zone = z, Bits = 128, ScoreAdj = w\<rparr> = Returned (w, None)
       \<and> lookupDomainBL ParseIP_dotted (mockBLResolver ''127.0.0.64'' None) d'
            \<lparr>Zone = z, Bits = 128, ScoreAdj = w\<rparr> = Returned (0, None)"
proof -
  have main_eq: "lookupDomainBL P r d entry =
           Returned (if \<exists>a\<in>set addrs. \<exists>x. last_octet P a = Some x \<and> bits_overlap (Bits entry) x
                     then ScoreAdj entry else 0, None)"
    using assms by (simp add: lookupDomainBL_success scan_addrs_ipv4)
  have iff: "ScoreAdj entry \<noteq> 0 \<longrightarrow>
            (lookupDomainBL P r d entry = Returned (ScoreAdj entry, None)) =
            (\<exists>a\<in>set addrs. \<exists>x. last_octet P a = Some x \<and> bits_overlap (Bits entry) x)"
    unfolding main_eq by auto
  have hit: "lookupDomainBL ParseIP_dotted (mockBLResolver ''127.0.0.254'' None) d'
            \<lparr>Zone = z, Bits = 128, ScoreAdj = w\<rparr> = Returned (w, None)"
    by (simp add: lookupDomainBL_def mockBLResolver_def scan_addrs_Cons_octet [OF last_octet_254]
        bits_overlap_128_254 del: scan_addrs.simps(2))
  have miss: "lookupDomainBL ParseIP_dotted (mockBLResolver ''127.0.0.64'' None) d'
            \<lparr>Zone = z, Bits = 128, ScoreAdj = w\<rparr> = Returned (0, None)"
    by (simp add: lookupDomainBL_def mockBLResolver_def scan_addrs_Cons_octet [OF last_octet_64]
        bits_overlap_128_64 del: scan_addrs.simps(2))
  from main_eq iff hit miss show ?thesis by blast
qed

theorem lookupDomainBL_scores_on_common_bit_witness:
  "mockBLResolver ''127.0.0.254'' None
     (blDomain ''turrible-spammer.example.org'' \<lparr>Zone = ''domainbl.example.org'', Bits = 128, ScoreAdj = 1\<rparr>)
     = ([''127.0.0.254''], None)
   \<and> last_octet ParseIP_dotted ''127.0.0.254'' = Some 254
   \<and> bits_overlap 128 254
   \<and> lookupDomainBL ParseIP_dotted (mockBLResolver ''127.0.0.254'' None) ''turrible-spammer.example.org''
       \<lparr>Zone = ''domainbl.example.org'', Bits = 128, ScoreAdj = 1\<rparr> = Returned (1, None)"
proof -
  have h1: "mockBLResolver ''127.0.0.254'' None
     (blDomain ''turrible-spammer.example.org'' \<lparr>Zone = ''domainbl.example.org'', Bits = 128, ScoreAdj = 1\<rparr>)
     = ([''127.0.0.254''], None)"
    by (simp add: mockBLResolver_def)
  have h2: "\<forall>a\<in>set [''127.0.0.254'']. last_octet ParseIP_dotted a \<noteq> None"
    by (simp add: last_octet_254)
  from lookupDomainBL_scores_on_common_bit
         [where P = ParseIP_dotted and addrs = "[''127.0.0.254'']"
            and r = "mockBLResolver ''127.0.0.254'' None" and d = "''turrible-spammer.example.org''"
            and entry = "\<lparr>Zone = ''domainbl.example.org'', Bits = 128, ScoreAdj = 1\<rparr>",
          OF h1 h2]
  have "lookupDomainBL ParseIP_dotted (mockBLResolver ''127.0.0.254'' None) ''turrible-spammer.example.org''
       \<lparr>Zone = ''domainbl.example.org'', Bits = 128, ScoreAdj = 1\<rparr> = Returned (1, None)"
    by (simp add: last_octet_254 bits_overlap_128_254)
  with h1 show ?thesis by (simp add: last_octet_254 bits_overlap_128_254)
qed

text \<open>
  C5. The job queries the host name \<open>domain + "." + bl.Zone\<close> and nothing else: two resolvers
  that agree on this one name give the same result. When the resolver fails with a
  \<open>*net.DNSError\<close> whose \<open>IsNotFound\<close> is set, the job returns score 0 and no error; when it
  fails with any other error, the job returns score 0 and that error.
\<close>

theorem lookupDomainBL_hostname_and_resolver_errors:
  "(r (d @ ''.'' @ Zone entry) = r' (d @ ''.'' @ Zone entry) \<longrightarrow>
      lookupDomainBL P r d entry = lookupDomainBL P r' d entry)
   \<and> (\<forall>addrs tmp msg. r (d @ ''.'' @ Zone entry) = (addrs, Some (DNSError True tmp msg)) \<longrightarrow>
        lookupDomainBL P r d entry = Returned (0, None))
   \<and> (\<forall>addrs e. r (d @ ''.'' @ Zone entry) = (addrs, Some e) \<longrightarrow>
        (\<forall>tmp msg. e \<noteq> DNSError True tmp msg) \<longrightarrow>
        lookupDomainBL P r d entry = Returned (0, Some e))"
proof (intro conjI allI impI)
  assume "r (d @ ''.'' @ Zone entry) = r' (d @ ''.'' @ Zone entry)"
  then show "lookupDomainBL P r d entry = lookupDomainBL P r' d entry"
    by (simp add: lookupDomainBL_def blDomain_def)
next
  fix addrs tmp msg
  assume "r (d @ ''.'' @ Zone entry) = (addrs, Some (DNSError True tmp msg))"
  then show "lookupDomainBL P r d entry = Returned (0, None)"
    by (simp add: lookupDomainBL_def blDomain_def)
next
  fix addrs e
  assume q: "r (d @ ''.'' @ Zone entry) = (addrs, Some e)"
    and other: "\<forall>tmp msg. e \<noteq> DNSError True tmp msg"
  from other have "\<not> is_not_found e" by (cases e) auto
  with q show "lookupDomainBL P r d entry = Returned (0, Some e)"
    by (simp add: lookupDomainBL_def blDomain_def)
qed

theorem lookupDomainBL_hostname_and_resolver_errors_witness:
  "lookupDomainBL ParseIP_dotted (mockBLResolver [] (Some (DNSError True False ''no such host'')))
     ''goodguy.example.org'' \<lparr>Zone = ''domainbl.example.org'', Bits = 128, ScoreAdj = 1\<rparr>
     = Returned (0, None)
   \<and> lookupDomainBL ParseIP_dotted (mockBLResolver [] (Some (DNSError False True ''timeout'')))
     ''failure.example.org'' \<lparr>Zone = ''domainbl.example.org'', Bits = 128, ScoreAdj = 1\<rparr>
     = Returned (0, Some (DNSError False True ''timeout''))
   \<and> lookupDomainBL ParseIP_dotted (mockBLResolver ''127.0.0.2'' (Some (ResolverError ''refused'')))
       ''failure.example.org'' \<lparr>Zone = ''domainbl.example.org'', Bits = 128, ScoreAdj = 1\<rparr>
     = lookupDomainBL ParseIP_dotted (staticResolver [] (Some (ResolverError ''refused'')))
       ''failure.example.org'' \<lparr>Zone = ''domainbl.example.org'', Bits = 128, ScoreAdj = 1\<rparr>"
proof -
  let ?entry = "\<lparr>Zone = ''domainbl.example.org'', Bits = 128, ScoreAdj = 1\<rparr>"
  let ?miss = "mockBLResolver [] (Some (DNSError True False ''no such host''))"
  let ?fail = "mockBLResolver [] (Some (DNSError False True ''timeout''))"
  let ?mock = "mockBLResolver ''127.0.0.2'' (Some (ResolverError ''refused''))"
  let ?static = "staticResolver [] (Some (ResolverError ''refused''))"
  have q1: "?miss (''goodguy.example.org'' @ ''.'' @ Zone ?entry)
              = ([], Some (DNSError True False ''no such host''))"
    by (simp add: mockBLResolver_def)
  have q2: "?fail (''failure.example.org'' @ ''.'' @ Zone ?entry)
              = ([], Some (DNSError False True ''timeout''))"
    by (simp add: mockBLResolver_def)
  have q2': "\<forall>tmp msg. DNSError False True ''timeout'' \<noteq> DNSError True tmp msg"
    by simp
  have q3: "?mock (''failure.example.org'' @ ''.'' @ Zone ?entry)
              = ?static (''failure.example.org'' @ ''.'' @ Zone ?entry)"
    by (simp add: mockBLResolver_def staticResolver_def)
  note t1 = lookupDomainBL_hostname_and_resolver_errors
              [where r = ?miss and d = "''goodguy.example.org''" and entry = ?entry
                 and P = ParseIP_dotted]
  note t2 = lookupDomainBL_hostname_and_resolver_errors
              [where r = ?fail and d = "''failure.example.org''" and entry = ?entry
                 and P = ParseIP_dotted]
  note t3 = lookupDomainBL_hostname_and_resolver_errors
              [where r = ?mock and r' = ?static and d = "''failure.example.org''"
                 and entry = ?entry and P = ParseIP_dotted]
  from t1 q1 have c1: "lookupDomainBL ParseIP_dotted ?miss ''goodguy.example.org'' ?entry
                         = Returned (0, None)"
    by blast
  from t2 q2 q2' have c2: "lookupDomainBL ParseIP_dotted ?fail ''failure.example.org'' ?entry
                         = Returned (0, Some (DNSError False True ''timeout''))"
    by blast
  from t3 q3 have c3: "lookupDomainBL ParseIP_dotted ?mock ''failure.example.org'' ?entry
                         = lookupDomainBL ParseIP_dotted ?static ''failure.example.org'' ?entry"
    by blast
  from c1 c2 c3 show ?thesis by blast
qed

text \<open>
  An address that parses as an IP address without being an IPv4 one (\<open>To4\<close> gives nil) is
  not reported as a malformed response: \<open>ip.To4()[3]\<close> indexes the nil slice and the call
  panics. \<open>cleanupDomains\<close> tests \<open>v4 == nil\<close> at the same place; \<open>lookupDomainBL\<close> does not.
\<close>

lemma lookupDomainBL_ipv6_address_panics:
  "r (blDomain d entry) = (a # addrs, None) \<Longrightarrow> is_ipv6 P a \<Longrightarrow>
   lookupDomainBL P r d entry = Panicked (IndexOutOfRange 3 0)"
  by (auto simp: lookupDomainBL_def is_ipv6_def split: option.splits)

lemma To4_loopback6: "To4 (replicate 15 0 @ [1]) = None"
  by code_simp

lemma lookupDomainBL_loopback6_panics:
  "lookupDomainBL ParseIP_loopback6 (mockBLResolver ''::1'' None) d entry
     = Panicked (IndexOutOfRange 3 0)"
  by (simp add: lookupDomainBL_def mockBLResolver_def ParseIP_loopback6_def To4_loopback6)

text \<open>
  C4 (as stated). An address that is no IPv4 literal does not always give the
  malformed-response error: the loop returns at the first address that hits, and an
  address behind it is never parsed.
\<close>

theorem lookupDomainBL_hit_hides_malformed_address:
  "ParseIP_dotted ''not-an-address'' = None
   \<and> lookupDomainBL ParseIP_dotted (staticResolver [''127.0.0.2'', ''not-an-address''] None)
       ''spam.example.org'' \<lparr>Zone = ''domainbl.example.org'', Bits = 2, ScoreAdj = 1\<rparr>
     = Returned (1, None)"
  by code_simp

text \<open>
  C4 (amended). When the resolution succeeds, a returned address does not parse as an IP
  address, and every address before it is an IPv4 literal whose last octet has no bit in
  common with the entry's mask, the job returns score 0 and the error \<open>errBadBLResponse\<close>.
\<close>

theorem lookupDomainBL_malformed_address:
  assumes "r (blDomain d entry) = (pre @ a # post, None)"
    and "\<forall>x\<in>set pre. \<exists>oc. last_octet P x = Some oc \<and> \<not> bits_overlap (Bits entry) oc"
    and "P a = None"
  shows "lookupDomainBL P r d entry = Returned (0, Some errBadBLResponse)"
  using assms by (simp add: lookupDomainBL_success scan_addrs_malformed)

theorem lookupDomainBL_malformed_address_witness:
  "staticResolver [''127.0.0.64'', ''not-an-address'', ''127.0.0.254''] None
     (blDomain ''spam.example.org'' \<lparr>Zone = ''domainbl.example.org'', Bits = 128, ScoreAdj = 1\<rparr>)
     = ([''127.0.0.64''] @ ''not-an-address'' # [''127.0.0.254''], None)
   \<and> last_octet ParseIP_dotted ''127.0.0.64'' = Some 64 \<and> \<not> bits_overlap 128 64
   \<and> ParseIP_dotted ''not-an-address'' = None
   \<and> lookupDomainBL ParseIP_dotted
        (staticResolver [''127.0.0.64'', ''not-an-address'', ''127.0.0.254''] None)
        ''spam.example.org'' \<lparr>Zone = ''domainbl.example.org'', Bits = 128, ScoreAdj = 1\<rparr>
     = Returned (0, Some errBadBLResponse)"
proof -
  let ?entry = "\<lparr>Zone = ''domainbl.example.org'', Bits = 128, ScoreAdj = 1\<rparr>"
  let ?r = "staticResolver [''127.0.0.64'', ''not-an-address'', ''127.0.0.254''] None"
  have h1: "?r (blDomain ''spam.example.org'' ?entry)
              = ([''127.0.0.64''] @ ''not-an-address'' # [''127.0.0.254''], None)"
    by (simp add: staticResolver_def)
  have h2: "\<forall>x\<in>set [''127.0.0.64''].
              \<exists>oc. last_octet ParseIP_dotted x = Some oc \<and> \<not> bits_overlap (Bits ?entry) oc"
    by (simp add: last_octet_64 bits_overlap_128_64)
  have h3: "ParseIP_dotted ''not-an-address'' = None"
    by code_simp
  from lookupDomainBL_malformed_address
         [where r = ?r and d = "''spam.example.org''" and entry = ?entry and P = ParseIP_dotted
            and pre = "[''127.0.0.64'']" and a = "''not-an-address''" and post = "[''127.0.0.254'']",
          OF h1 h2 h3]
  show ?thesis using h1 h3 by (simp add: last_octet_64 bits_overlap_128_64)
qed


section \<open>Normalization: \<open>cleanupDomains\<close>\<close>

lemma reverse_octets_rev: "length v4 = 4 \<Longrightarrow> reverse_octets v4 = rev v4"
proof -
  assume "length v4 = 4"
  then obtain a b c d where "v4 = [a, b, c, d]"
    by (cases v4; simp; rename_tac xs; case_tac xs; simp; rename_tac ys; case_tac ys; simp;
        rename_tac zs; case_tac zs; simp)
  then show ?thesis by (simp add: reverse_octets_def)
qed

lemma set_map_insert: "set (map_insert k ks) = insert k (set ks)"
  by (auto simp: map_insert_def)

lemma distinct_map_insert: "distinct ks \<Longrightarrow> distinct (map_insert k ks)"
  by (auto simp: map_insert_def)

lemma length_map_insert: "length (map_insert k ks) \<le> Suc (length ks)"
  by (auto simp: map_insert_def)

lemma unique_keys_step:
  "unique_keys P D (d # rest) acc =
     unique_keys P D rest (case normalized P D d of None \<Rightarrow> acc | Some k \<Rightarrow> map_insert k acc)"
  by (auto simp: normalized_def reverse_octets_rev To4_length split: option.splits)

lemma set_unique_keys:
  "set (unique_keys P D ds acc) = set acc \<union> {k. \<exists>d\<in>set ds. normalized P D d = Some k}"
proof (induction ds arbitrary: acc)
  case Nil
  show ?case by simp
next
  case (Cons d ds)
  show ?case
    unfolding unique_keys_step Cons.IH
    by (cases "normalized P D d") (auto simp: set_map_insert)
qed

lemma distinct_unique_keys: "distinct acc \<Longrightarrow> distinct (unique_keys P D ds acc)"
proof (induction ds arbitrary: acc)
  case Nil
  then show ?case by simp
next
  case (Cons d ds)
  then show ?case
    unfolding unique_keys_step
    by (cases "normalized P D d") (auto simp: distinct_map_insert)
qed

lemma length_unique_keys: "length (unique_keys P D ds acc) \<le> length acc + length ds"
proof (induction ds arbitrary: acc)
  case Nil
  show ?case by simp
next
  case (Cons d ds)
  show ?case
  proof (cases "normalized P D d")
    case None
    with Cons.IH [of acc] show ?thesis unfolding unique_keys_step by simp
  next
    case (Some k)
    with Cons.IH [of "map_insert k acc"] length_map_insert [of k acc]
    show ?thesis unfolding unique_keys_step by simp
  qed
qed

lemma uitoa_nonempty: "uitoa n \<noteq> []"
  by (subst uitoa.simps) simp

lemma IP_String_nonempty: "IP_String v4 \<noteq> []"
  by (simp add: IP_String_def uitoa_nonempty)

lemma normalized_dropped:
  "normalized P D [] = None" "is_ipv6 P d \<Longrightarrow> normalized P D d = None"
  by (auto simp: normalized_def is_ipv6_def split: option.splits)

lemma normalized_ipv4:
  "d \<noteq> [] \<Longrightarrow> P d = Some ip \<Longrightarrow> To4 ip = Some v4 \<Longrightarrow> normalized P D d = Some (IP_String (rev v4))"
  by (simp add: normalized_def)

lemma normalized_base:
  "d \<noteq> [] \<Longrightarrow> P d = None \<Longrightarrow> D d = Some base \<Longrightarrow> normalized P D d = Some base"
  by (simp add: normalized_def)

lemma normalized_same:
  "d \<noteq> [] \<Longrightarrow> P d = None \<Longrightarrow> D d = None \<Longrightarrow> normalized P D d = Some d"
  by (simp add: normalized_def)

lemma normalized_cases:
  assumes "normalized P D d = Some k"
  shows "(\<exists>ip v4. P d = Some ip \<and> To4 ip = Some v4 \<and> k = IP_String (rev v4))
       \<or> (P d = None \<and> D d = Some k) \<or> (P d = None \<and> D d = None \<and> k = d \<and> d \<noteq> [])"
proof (cases "P d")
  case None
  with assms show ?thesis
    by (cases "D d") (simp_all add: normalized_def split: if_splits)
next
  case (Some ip)
  with assms show ?thesis
    by (cases "To4 ip") (simp_all add: normalized_def split: if_splits)
qed

lemma normalized_nonempty:
  assumes "\<forall>d. D d \<noteq> Some []" and "normalized P D d = Some k"
  shows "k \<noteq> []"
  using normalized_cases [OF assms(2)] assms(1) IP_String_nonempty by metis

lemma normalized_not_ipv6:
  assumes "\<forall>d base. D d = Some base \<longrightarrow> \<not> is_ipv6 P base" and "\<forall>v4. \<not> is_ipv6 P (IP_String v4)"
    and "normalized P D d = Some k"
  shows "\<not> is_ipv6 P k"
proof -
  from normalized_cases [OF assms(3)] consider
      (v4) v4 where "k = IP_String (rev v4)"
    | (base) "D d = Some k"
    | (same) "P d = None" "k = d"
    by auto
  then show ?thesis
  proof cases
    case v4
    with assms(2) show ?thesis by simp
  next
    case base
    with assms(1) show ?thesis by blast
  next
    case same
    then show ?thesis by (simp add: is_ipv6_def)
  qed
qed

text \<open>
  C6. Whatever order the map is ranged over (each key once), the list \<open>cleanupDomains\<close>
  returns has no element twice, and its elements are exactly the normalized forms of the
  raw strings: an IPv4 address (a string \<open>net.ParseIP\<close> accepts and \<open>To4\<close> converts) appears
  with its four octets reversed; every other string that is not an IP address appears as
  its registrable domain, or unchanged when \<open>publicsuffix.Domain\<close> fails; the empty string
  and an IP address that is not IPv4 contribute nothing. The empty string is not in the
  list unless the suffix library returns it, and no non-IPv4 address is in the list unless
  the suffix library returns one. The list is never longer than the input.
\<close>

theorem cleanupDomains_normalizes:
  assumes "mset (ord (unique_keys P D domains [])) = mset (unique_keys P D domains [])"
  shows "distinct (cleanupDomains P D ord domains)
   \<and> set (cleanupDomains P D ord domains) = {k. \<exists>d\<in>set domains. normalized P D d = Some k}
   \<and> (\<forall>d\<in>set domains. \<forall>ip v4. d \<noteq> [] \<and> P d = Some ip \<and> To4 ip = Some v4 \<longrightarrow>
         IP_String (rev v4) \<in> set (cleanupDomains P D ord domains))
   \<and> (\<forall>d\<in>set domains. \<forall>base. d \<noteq> [] \<and> P d = None \<and> D d = Some base \<longrightarrow>
         base \<in> set (cleanupDomains P D ord domains))
   \<and> (\<forall>d\<in>set domains. d \<noteq> [] \<and> P d = None \<and> D d = None \<longrightarrow>
         d \<in> set (cleanupDomains P D ord domains))
   \<and> (\<forall>d\<in>set domains. d = [] \<or> is_ipv6 P d \<longrightarrow> normalized P D d = None)
   \<and> ((\<forall>d. D d \<noteq> Some []) \<longrightarrow> [] \<notin> set (cleanupDomains P D ord domains))
   \<and> ((\<forall>d base. D d = Some base \<longrightarrow> \<not> is_ipv6 P base) \<and> (\<forall>v4. \<not> is_ipv6 P (IP_String v4)) \<longrightarrow>
         (\<forall>k\<in>set (cleanupDomains P D ord domains). \<not> is_ipv6 P k))
   \<and> length (cleanupDomains P D ord domains) \<le> length domains"
proof -
  let ?out = "cleanupDomains P D ord domains"
  let ?keys = "unique_keys P D domains []"
  have set_eq: "set ?out = set ?keys"
    unfolding cleanupDomains_def using assms by (rule mset_eq_setD)
  have dist: "distinct ?out"
    unfolding cleanupDomains_def using assms distinct_unique_keys [of "[]" P D domains]
    by (metis distinct.simps(1) mset_eq_imp_distinct_iff)
  have char: "set ?out = {k. \<exists>d\<in>set domains. normalized P D d = Some k}"
    unfolding set_eq set_unique_keys by simp
  have mem: "\<And>k d. d \<in> set domains \<Longrightarrow> normalized P D d = Some k \<Longrightarrow> k \<in> set ?out"
    unfolding char by blast
  have from_input: "\<And>k. k \<in> set ?out \<Longrightarrow> \<exists>d\<in>set domains. normalized P D d = Some k"
    unfolding char by blast
  have len: "length ?out \<le> length domains"
    unfolding cleanupDomains_def using assms length_unique_keys [of P D domains "[]"]
    by (metis add_0 list.size(3) mset_eq_length)
  have v4: "\<forall>d\<in>set domains. \<forall>ip v4. d \<noteq> [] \<and> P d = Some ip \<and> To4 ip = Some v4 \<longrightarrow>
         IP_String (rev v4) \<in> set ?out"
    using mem normalized_ipv4 by blast
  have base: "\<forall>d\<in>set domains. \<forall>base. d \<noteq> [] \<and> P d = None \<and> D d = Some base \<longrightarrow> base \<in> set ?out"
    using mem normalized_base by blast
  have same: "\<forall>d\<in>set domains. d \<noteq> [] \<and> P d = None \<and> D d = None \<longrightarrow> d \<in> set ?out"
    using mem normalized_same by blast
  have dropped: "\<forall>d\<in>set domains. d = [] \<or> is_ipv6 P d \<longrightarrow> normalized P D d = None"
    by (auto simp: normalized_dropped)
  have noempty: "(\<forall>d. D d \<noteq> Some []) \<longrightarrow> [] \<notin> set ?out"
    using from_input normalized_nonempty by blast
  have no6: "(\<forall>d base. D d = Some base \<longrightarrow> \<not> is_ipv6 P base) \<and> (\<forall>v4. \<not> is_ipv6 P (IP_String v4)) \<longrightarrow>
         (\<forall>k\<in>set ?out. \<not> is_ipv6 P k)"
    using from_input normalized_not_ipv6 by blast
  show ?thesis
    using dist char v4 base same dropped noempty no6 len by (intro conjI)
qed


lemma cleanupDomains_example:
  "cleanupDomains ParseIP_loopback6 Domain_default_rule rev
     [''1.2.3.4'', [], ''::1'', ''www.mail.example.com'', ''example.com'', ''localhost'', ''1.2.3.4'']
   = [''localhost'', ''example.com'', ''4.3.2.1'']"
  by code_simp

theorem cleanupDomains_normalizes_witness:
  "cleanupDomains ParseIP_loopback6 Domain_default_rule rev
     [''1.2.3.4'', [], ''::1'', ''www.mail.example.com'', ''example.com'', ''localhost'', ''1.2.3.4'']
   = [''localhost'', ''example.com'', ''4.3.2.1'']
   \<and> distinct (cleanupDomains ParseIP_loopback6 Domain_default_rule rev
     [''1.2.3.4'', [], ''::1'', ''www.mail.example.com'', ''example.com'', ''localhost'', ''1.2.3.4''])
   \<and> normalized ParseIP_loopback6 Domain_default_rule ''1.2.3.4'' = Some ''4.3.2.1''
   \<and> normalized ParseIP_loopback6 Domain_default_rule ''www.mail.example.com'' = Some ''example.com''
   \<and> normalized ParseIP_loopback6 Domain_default_rule ''localhost'' = Some ''localhost''
   \<and> normalized ParseIP_loopback6 Domain_default_rule ''::1'' = None
   \<and> normalized ParseIP_loopback6 Domain_default_rule [] = None"
proof -
  let ?raw = "[''1.2.3.4'', [], ''::1'', ''www.mail.example.com'', ''example.com'', ''localhost'', ''1.2.3.4'']"
  have perm: "mset (rev (unique_keys ParseIP_loopback6 Domain_default_rule ?raw []))
                = mset (unique_keys ParseIP_loopback6 Domain_default_rule ?raw [])"
    by simp
  from cleanupDomains_normalizes [where ord = rev, OF perm]
  have d: "distinct (cleanupDomains ParseIP_loopback6 Domain_default_rule rev ?raw)"
    by blast
  have n1: "normalized ParseIP_loopback6 Domain_default_rule ''1.2.3.4'' = Some ''4.3.2.1''"
    by code_simp
  have n2: "normalized ParseIP_loopback6 Domain_default_rule ''www.mail.example.com'' = Some ''example.com''"
    by code_simp
  have n3: "normalized ParseIP_loopback6 Domain_default_rule ''localhost'' = Some ''localhost''"
    by code_simp
  have n4: "normalized ParseIP_loopback6 Domain_default_rule ''::1'' = None"
    by code_simp
  have n5: "normalized ParseIP_loopback6 Domain_default_rule [] = None"
    by code_simp
  from cleanupDomains_example d n1 n2 n3 n4 n5 show ?thesis by (intro conjI)
qed

subsection \<open>The effect of \<open>cleanupDomains\<close> on the caller's slice\<close>

lemma write_at_eq:
  "i + length ks \<le> length arr \<Longrightarrow> write_at arr i ks = take i arr @ ks @ drop (i + length ks) arr"
proof (induction ks arbitrary: arr i)
  case Nil
  show ?case by simp
next
  case (Cons k ks)
  from Cons.prems have i: "i < length arr" and rest: "Suc i + length ks \<le> length (arr[i := k])"
    by simp_all
  have "write_at (arr[i := k]) (Suc i) ks =
          take (Suc i) (arr[i := k]) @ ks @ drop (Suc i + length ks) (arr[i := k])"
    by (rule Cons.IH [OF rest])
  also have "take (Suc i) (arr[i := k]) = take i arr @ [k]"
    using i by (simp add: take_Suc_conv_app_nth)
  also have "drop (Suc i + length ks) (arr[i := k]) = drop (Suc i + length ks) arr"
    by simp
  finally show ?case by simp
qed

lemma foldl_append_slice:
  "len s + length ks \<le> cap s \<Longrightarrow>
   foldl append_slice (h, s) ks =
     (h\<lparr>arrays := (arrays h)(ptr s := write_at (arrays h (ptr s)) (off s + len s) ks)\<rparr>,
      s\<lparr>len := len s + length ks\<rparr>)"
proof (induction ks arbitrary: h s)
  case Nil
  show ?case by simp
next
  case (Cons k ks)
  let ?h1 = "h\<lparr>arrays := (arrays h)(ptr s := (arrays h (ptr s))[off s + len s := k])\<rparr>"
  let ?s1 = "s\<lparr>len := len s + 1\<rparr>"
  from Cons.prems have lt: "len s < cap s" by simp
  then have first: "append_slice (h, s) k = (?h1, ?s1)" by (simp add: append_slice_def)
  from Cons.prems have "len ?s1 + length ks \<le> cap ?s1" by simp
  from Cons.IH [OF this, of ?h1] first show ?case
    by (auto simp: fun_eq_iff intro!: heap.equality)
qed

lemma length_slice_elems: "slice_ok h s \<Longrightarrow> length (slice_elems h s) = len s"
  by (auto simp: slice_ok_def slice_elems_def)

lemma cleanupDomains_mem_effect:
  assumes ok: "slice_ok h s"
    and perm: "mset (ord (unique_keys P D (slice_elems h s) [])) = mset (unique_keys P D (slice_elems h s) [])"
    and run: "cleanupDomains_mem P D ord h s = (h', s')"
  shows "s' = s\<lparr>len := length (cleanupDomains P D ord (slice_elems h s))\<rparr>
       \<and> length (cleanupDomains P D ord (slice_elems h s)) \<le> len s
       \<and> slice_elems h' s' = cleanupDomains P D ord (slice_elems h s)
       \<and> slice_elems h' s =
           cleanupDomains P D ord (slice_elems h s)
             @ drop (length (cleanupDomains P D ord (slice_elems h s))) (slice_elems h s)
       \<and> next_free h' = next_free h
       \<and> (\<forall>p. p \<noteq> ptr s \<longrightarrow> arrays h' p = arrays h p)"
proof -
  let ?raw = "slice_elems h s"
  let ?out = "cleanupDomains P D ord ?raw"
  let ?arr = "arrays h (ptr s)"
  have out: "?out = ord (unique_keys P D ?raw [])" by (simp add: cleanupDomains_def)
  have "length ?out = length (unique_keys P D ?raw [])"
    unfolding out using perm by (rule mset_eq_length)
  with length_unique_keys [of P D ?raw "[]"] length_slice_elems [OF ok]
  have le: "length ?out \<le> len s" by simp
  from ok have bounds: "len s \<le> cap s" "off s + cap s \<le> length ?arr"
    by (simp_all add: slice_ok_def)
  from le bounds have fits: "len (s\<lparr>len := 0\<rparr>) + length ?out \<le> cap (s\<lparr>len := 0\<rparr>)" by simp
  have "cleanupDomains_mem P D ord h s = foldl append_slice (h, s\<lparr>len := 0\<rparr>) ?out"
    by (simp add: cleanupDomains_mem_def cleanupDomains_def)
  also have "\<dots> = (h\<lparr>arrays := (arrays h)(ptr s := write_at ?arr (off s) ?out)\<rparr>,
                   s\<lparr>len := length ?out\<rparr>)"
    using foldl_append_slice [OF fits, of h] by simp
  finally have res: "h' = h\<lparr>arrays := (arrays h)(ptr s := write_at ?arr (off s) ?out)\<rparr>"
       "s' = s\<lparr>len := length ?out\<rparr>"
    using run by simp_all
  from le bounds have "off s + length ?out \<le> length ?arr" by simp
  then have w: "write_at ?arr (off s) ?out = take (off s) ?arr @ ?out @ drop (off s + length ?out) ?arr"
    by (rule write_at_eq)
  have arr': "arrays h' (ptr s) = take (off s) ?arr @ ?out @ drop (off s + length ?out) ?arr"
    using res(1) w by simp
  from bounds le have off_le: "off s \<le> length ?arr" by simp
  have view': "slice_elems h' s' = ?out"
    using off_le by (simp add: slice_elems_def res(2) arr')
  have view: "slice_elems h' s = ?out @ drop (length ?out) ?raw"
    using off_le le by (simp add: slice_elems_def arr' take_drop add.commute)
  show ?thesis
    using res(2) le view' view res(1) by simp
qed


lemma init_mem_refines:
  assumes ok: "slice_ok h s"
    and perm: "mset (ord (unique_keys P D (slice_elems h s) [])) = mset (unique_keys P D (slice_elems h s) [])"
  shows "lookupDomainBLs_init_mem P D ord h s es c
           = (fst (cleanupDomains_mem P D ord h s),
              lookupDomainBLs_init P D ord (slice_elems h s) es c)"
proof -
  obtain h' s' where run: "cleanupDomains_mem P D ord h s = (h', s')"
    by (cases "cleanupDomains_mem P D ord h s")
  note eff = cleanupDomains_mem_effect [OF ok perm run]
  from eff have s': "s' = s\<lparr>len := length (cleanupDomains P D ord (slice_elems h s))\<rparr>"
    and v: "slice_elems h' s' = cleanupDomains P D ord (slice_elems h s)"
    by blast+
  from s' have l: "len s' = length (cleanupDomains P D ord (slice_elems h s))"
    by simp
  show ?thesis
    by (simp add: lookupDomainBLs_init_mem_def lookupDomainBLs_init_def run l v Let_def)
qed

lemma lookupDomainBLs_mem_refines:
  assumes ok: "slice_ok h s"
    and perm: "mset (ord (unique_keys P D (slice_elems h s) [])) = mset (unique_keys P D (slice_elems h s) [])"
  shows "lookupDomainBLs_mem P D ord r h s es c sched
           = (fst (cleanupDomains_mem P D ord h s),
              lookupDomainBLs P D ord r (slice_elems h s) es c sched)"
  by (simp add: lookupDomainBLs_mem_def lookupDomainBLs_def
      init_mem_refines [where P = P and D = D and ord = ord, OF ok perm])


text \<open>
  C10. \<open>cleanupDomains\<close> works on the caller's memory. It cuts the slice it was given to length
  zero and appends the normalized entries, which never outgrow the capacity: nothing is
  allocated and no other array is touched. The slice it returns is the caller's slice
  (same array, offset and capacity) with the length of the result, which is at most the
  length of the input. The caller's own slice reads, after the call, the normalized
  entries followed by the rest of its raw elements: the raw list is overwritten from its
  first element on, as far as the result reaches. Every invocation of \<open>lookupDomainBLs\<close> does
  this to the slice it is given, under every schedule and whether or not it returns: the
  memory it leaves is the memory \<open>cleanupDomains\<close> leaves, and its jobs are those of the
  rewritten slice.
\<close>

theorem cleanupDomains_mutates_input:
  assumes ok: "slice_ok h s"
    and perm: "mset (ord (unique_keys P D (slice_elems h s) [])) = mset (unique_keys P D (slice_elems h s) [])"
    and run: "cleanupDomains_mem P D ord h s = (h', s')"
  shows "s' = s\<lparr>len := length (cleanupDomains P D ord (slice_elems h s))\<rparr>
       \<and> length (cleanupDomains P D ord (slice_elems h s)) \<le> len s
       \<and> slice_elems h' s' = cleanupDomains P D ord (slice_elems h s)
       \<and> slice_elems h' s =
           cleanupDomains P D ord (slice_elems h s)
             @ drop (length (cleanupDomains P D ord (slice_elems h s))) (slice_elems h s)
       \<and> next_free h' = next_free h
       \<and> (\<forall>p. p \<noteq> ptr s \<longrightarrow> arrays h' p = arrays h p)
       \<and> lookupDomainBLs_init_mem P D ord h s es c
           = (h', lookupDomainBLs_init P D ord (slice_elems h s) es c)
       \<and> fst (lookupDomainBLs_mem P D ord r h s es c sched) = h'
       \<and> slice_elems (fst (lookupDomainBLs_mem P D ord r h s es c sched)) s =
           cleanupDomains P D ord (slice_elems h s)
             @ drop (length (cleanupDomains P D ord (slice_elems h s))) (slice_elems h s)
       \<and> snd (lookupDomainBLs_mem P D ord r h s es c sched)
           = lookupDomainBLs P D ord r (slice_elems h s) es c sched"
proof -
  note eff = cleanupDomains_mem_effect [OF ok perm run]
  from eff have view: "slice_elems h' s =
           cleanupDomains P D ord (slice_elems h s)
             @ drop (length (cleanupDomains P D ord (slice_elems h s))) (slice_elems h s)"
    by blast
  have i: "lookupDomainBLs_init_mem P D ord h s es c
           = (h', lookupDomainBLs_init P D ord (slice_elems h s) es c)"
    using init_mem_refines [where P = P and D = D and ord = ord, OF ok perm] run by simp
  have m: "lookupDomainBLs_mem P D ord r h s es c sched
           = (h', lookupDomainBLs P D ord r (slice_elems h s) es c sched)"
    using lookupDomainBLs_mem_refines [where P = P and D = D and ord = ord, OF ok perm] run by simp
  from m have m1: "fst (lookupDomainBLs_mem P D ord r h s es c sched) = h'"
    and m2: "snd (lookupDomainBLs_mem P D ord r h s es c sched)
           = lookupDomainBLs P D ord r (slice_elems h s) es c sched"
    by simp_all
  from view m1 have m3: "slice_elems (fst (lookupDomainBLs_mem P D ord r h s es c sched)) s =
           cleanupDomains P D ord (slice_elems h s)
             @ drop (length (cleanupDomains P D ord (slice_elems h s))) (slice_elems h s)"
    by simp
  from eff i m1 m3 m2 show ?thesis by (intro conjI) blast+
qed

lemma cleanupDomains_mem_example:
  "slice_elems heap_example slice_example = [''1.2.3.4'', [], ''www.example.com'', ''example.com'']"
  "cleanupDomains ParseIP_dotted Domain_default_rule id
     [''1.2.3.4'', [], ''www.example.com'', ''example.com''] = [''4.3.2.1'', ''example.com'']"
  by code_simp+

lemma lookupDomainBLs_example_run:
  "lookupDomainBLs ParseIP_dotted Domain_default_rule id resolver_hit
     [''1.2.3.4'', [], ''www.example.com'', ''example.com''] [entry_a] concurrency
     [Send 0, Send 1, Call 0, Call 1, Deliver 0, Merge, Deliver 1, Merge,
      CloseJobs, WaitAll, CollectorExit, Return]
   = Some (2, [''a.bl.example'', ''a.bl.example''], None)"
  by code_simp

theorem cleanupDomains_mutates_input_witness:
  "slice_ok heap_example slice_example
   \<and> slice_elems heap_example slice_example = [''1.2.3.4'', [], ''www.example.com'', ''example.com'']
   \<and> snd (cleanupDomains_mem ParseIP_dotted Domain_default_rule id heap_example slice_example)
       = \<lparr>ptr = 0, off = 0, len = 2, cap = 4\<rparr>
   \<and> slice_elems (fst (cleanupDomains_mem ParseIP_dotted Domain_default_rule id heap_example slice_example))
         slice_example
       = [''4.3.2.1'', ''example.com'', ''www.example.com'', ''example.com'']
   \<and> slice_elems
         (fst (lookupDomainBLs_mem ParseIP_dotted Domain_default_rule id resolver_hit
                 heap_example slice_example [entry_a] concurrency [Send 0, Call 0]))
         slice_example
       = [''4.3.2.1'', ''example.com'', ''www.example.com'', ''example.com'']
   \<and> lookupDomainBLs_mem ParseIP_dotted Domain_default_rule id resolver_hit
         heap_example slice_example [entry_a] concurrency
         [Send 0, Send 1, Call 0, Call 1, Deliver 0, Merge, Deliver 1, Merge,
          CloseJobs, WaitAll, CollectorExit, Return]
       = (fst (cleanupDomains_mem ParseIP_dotted Domain_default_rule id heap_example slice_example),
          Some (2, [''a.bl.example'', ''a.bl.example''], None))"
proof -
  let ?run = "cleanupDomains_mem ParseIP_dotted Domain_default_rule id heap_example slice_example"
  let ?full = "[Send 0, Send 1, Call 0, Call 1, Deliver 0, Merge, Deliver 1, Merge,
          CloseJobs, WaitAll, CollectorExit, Return]"
  have ok: "slice_ok heap_example slice_example"
    by (simp add: slice_ok_def heap_example_def slice_example_def)
  have perm: "mset (id (unique_keys ParseIP_dotted Domain_default_rule
                         (slice_elems heap_example slice_example) []))
              = mset (unique_keys ParseIP_dotted Domain_default_rule
                         (slice_elems heap_example slice_example) [])"
    by simp
  have run: "?run = (fst ?run, snd ?run)" by simp
  note t1 = cleanupDomains_mutates_input
              [OF ok perm run, where r = resolver_hit and es = "[entry_a]" and c = concurrency
                 and sched = "[Send 0, Call 0]"]
  note t2 = cleanupDomains_mutates_input
              [OF ok perm run, where r = resolver_hit and es = "[entry_a]" and c = concurrency
                 and sched = ?full]
  from t1 have s': "snd ?run = slice_example\<lparr>len := 2\<rparr>"
    by (simp add: cleanupDomains_mem_example)
  from t1 have view: "slice_elems (fst ?run) slice_example
                       = [''4.3.2.1'', ''example.com'', ''www.example.com'', ''example.com'']"
    by (simp add: cleanupDomains_mem_example)
  from t1 have eview: "slice_elems
         (fst (lookupDomainBLs_mem ParseIP_dotted Domain_default_rule id resolver_hit
                 heap_example slice_example [entry_a] concurrency [Send 0, Call 0]))
         slice_example
       = [''4.3.2.1'', ''example.com'', ''www.example.com'', ''example.com'']"
    by (simp add: cleanupDomains_mem_example)
  from t2 have "fst (lookupDomainBLs_mem ParseIP_dotted Domain_default_rule id resolver_hit
         heap_example slice_example [entry_a] concurrency ?full) = fst ?run"
    and "snd (lookupDomainBLs_mem ParseIP_dotted Domain_default_rule id resolver_hit
         heap_example slice_example [entry_a] concurrency ?full)
          = lookupDomainBLs ParseIP_dotted Domain_default_rule id resolver_hit
              (slice_elems heap_example slice_example) [entry_a] concurrency ?full"
    by blast+
  then have full: "lookupDomainBLs_mem ParseIP_dotted Domain_default_rule id resolver_hit
         heap_example slice_example [entry_a] concurrency ?full
       = (fst ?run, Some (2, [''a.bl.example'', ''a.bl.example''], None))"
    unfolding cleanupDomains_mem_example(1) lookupDomainBLs_example_run
    by (simp add: prod_eq_iff)
  have s'': "slice_example\<lparr>len := 2\<rparr> = \<lparr>ptr = 0, off = 0, len = 2, cap = 4\<rparr>"
    by (simp add: slice_example_def)
  from ok cleanupDomains_mem_example(1) s' [unfolded s''] view eview full show ?thesis
    by (intro conjI)
qed


section \<open>The engine: \<open>lookupDomainBLs\<close>\<close>

lemma exec_append:
  "exec P r (as @ bs) s = (case exec P r as s of None \<Rightarrow> None | Some s' \<Rightarrow> exec P r bs s')"
  by (induction as arbitrary: s) (auto split: option.splits)

lemma exec_invariant:
  assumes step: "\<And>a s s'. I s \<Longrightarrow> step P r a s = Some s' \<Longrightarrow> I s'"
    and init: "I s" and run: "exec P r sched s = Some s'"
  shows "I s'"
  using init run
proof (induction sched arbitrary: s)
  case Nil
  then show ?case by simp
next
  case (Cons a sched)
  from Cons.prems(2) obtain s1 where s1: "step P r a s = Some s1" "exec P r sched s1 = Some s'"
    by (auto split: option.splits)
  from step [OF Cons.prems(1) s1(1)] have "I s1" .
  from Cons.IH [OF this s1(2)] show ?case .
qed

text \<open>What each step does to the multiset of workers.\<close>

lemma worker_update:
  assumes "i < length ws"
  obtains M where "mset ws = add_mset (ws ! i) M" and "\<And>w. mset (ws[i := w]) = add_mset w M"
proof
  show "mset ws = add_mset (ws ! i) (mset ws - {#ws ! i#})"
    using assms by simp
  show "\<And>w. mset (ws[i := w]) = add_mset w (mset ws - {#ws ! i#})"
    using assms by (simp add: mset_update)
qed

lemma step_cases:
  assumes "step P r a s = Some s'"
  obtains
    (Send) i j js M ws' where "a = Send i" "pending s = j # js" "main s = Producing"
      "mset (workers s) = add_mset AtSelect M" "mset ws' = add_mset (GotJob j) M"
      "s' = s\<lparr>pending := js, workers := ws'\<rparr>"
  | (RecvClosed) i M ws' where "a = RecvClosed i" "main s \<noteq> Producing"
      "mset (workers s) = add_mset AtSelect M" "mset ws' = add_mset (GotJob zero_lookup) M"
      "s' = s\<lparr>workers := ws'\<rparr>"
  | (SeeCancel) i M ws' where "a = SeeCancel i" "ctx_done s"
      "mset (workers s) = add_mset AtSelect M" "mset ws' = add_mset Done M"
      "s' = s\<lparr>workers := ws', err_var := Some context_Canceled,
               err_writes := err_writes s @ [context_Canceled]\<rparr>"
  | (CallReturned) i j sc e M ws' where "a = Call i"
      "lookupDomainBL P r (domain j) (bl j) = Returned (sc, e)"
      "mset (workers s) = add_mset (GotJob j) M"
      "mset ws' = add_mset (Sending \<lparr>zone = Zone (bl j), score = sc, err = e\<rparr>) M"
      "s' = s\<lparr>workers := ws', queried := queried s @ [j]\<rparr>"
  | (CallPanicked) i j pv M ws' where "a = Call i"
      "lookupDomainBL P r (domain j) (bl j) = Panicked pv"
      "mset (workers s) = add_mset (GotJob j) M" "mset ws' = add_mset Done M"
      "s' = s\<lparr>workers := ws', err_var := Some (Errorf_recovered pv),
               err_writes := err_writes s @ [Errorf_recovered pv], queried := queried s @ [j]\<rparr>"
  | (Deliver) i res M ws' where "a = Deliver i" "collector s = Receiving"
      "mset (workers s) = add_mset (Sending res) M" "mset ws' = add_mset Done M"
      "s' = s\<lparr>workers := ws', collector := Holding res\<rparr>"
  | (Merge) res where "a = Merge" "collector s = Holding res"
      "s' = merge res (s\<lparr>collector := Receiving\<rparr>)"
  | (CloseJobs) "a = CloseJobs" "main s = Producing" "pending s = []" "s' = s\<lparr>main := Waiting\<rparr>"
  | (WaitAll) "a = WaitAll" "main s = Waiting" "\<forall>w\<in>#mset (workers s). w = Done"
      "s' = s\<lparr>main := Draining\<rparr>"
  | (CollectorExit) "a = CollectorExit" "main s = Draining" "collector s = Receiving"
      "s' = s\<lparr>collector := Exited\<rparr>"
  | (Return) "a = Return" "main s = Draining" "collector s = Exited" "s' = s\<lparr>main := Finished\<rparr>"
  | (Cancel) "a = Cancel" "\<not> ctx_done s" "s' = s\<lparr>ctx_done := True\<rparr>"
proof (cases a)
  case (Send i)
  with assms obtain j js where p: "pending s = j # js" "main s = Producing" "at_select s i"
    and s': "s' = s\<lparr>pending := js, workers := (workers s)[i := GotJob j]\<rparr>"
    by (auto split: list.splits if_splits)
  from p(3) have i: "i < length (workers s)" "workers s ! i = AtSelect" by (auto simp: at_select_def)
  from worker_update [OF i(1)] obtain M where
    M: "mset (workers s) = add_mset (workers s ! i) M" "\<And>w. mset ((workers s)[i := w]) = add_mset w M"
    by blast
  show ?thesis
    by (rule that(1) [of i j js M "(workers s)[i := GotJob j]"]) (use Send p s' i M in simp_all)
next
  case (RecvClosed i)
  with assms have p: "main s \<noteq> Producing" "at_select s i"
    and s': "s' = s\<lparr>workers := (workers s)[i := GotJob zero_lookup]\<rparr>"
    by (auto split: if_splits)
  from p(2) have i: "i < length (workers s)" "workers s ! i = AtSelect" by (auto simp: at_select_def)
  from worker_update [OF i(1)] obtain M where
    M: "mset (workers s) = add_mset (workers s ! i) M" "\<And>w. mset ((workers s)[i := w]) = add_mset w M"
    by blast
  show ?thesis
    by (rule that(2) [of i M "(workers s)[i := GotJob zero_lookup]"]) (use RecvClosed p s' i M in simp_all)
next
  case (SeeCancel i)
  with assms have p: "ctx_done s" "at_select s i"
    and s': "s' = s\<lparr>workers := (workers s)[i := Done], err_var := Some context_Canceled,
               err_writes := err_writes s @ [context_Canceled]\<rparr>"
    by (auto split: if_splits)
  from p(2) have i: "i < length (workers s)" "workers s ! i = AtSelect" by (auto simp: at_select_def)
  from worker_update [OF i(1)] obtain M where
    M: "mset (workers s) = add_mset (workers s ! i) M" "\<And>w. mset ((workers s)[i := w]) = add_mset w M"
    by blast
  show ?thesis
    by (rule that(3) [of i M "(workers s)[i := Done]"]) (use SeeCancel p s' i M in simp_all)
next
  case (Call i)
  with assms obtain j where i: "i < length (workers s)" "workers s ! i = GotJob j"
    by (auto split: if_splits worker.splits)
  from worker_update [OF i(1)] obtain M where
    M: "mset (workers s) = add_mset (workers s ! i) M" "\<And>w. mset ((workers s)[i := w]) = add_mset w M"
    by blast
  show ?thesis
  proof (cases "lookupDomainBL P r (domain j) (bl j)")
    case (Returned p)
    obtain sc e where p: "p = (sc, e)" by (cases p)
    from assms Call i Returned p
    have s': "s' = s\<lparr>workers := (workers s)[i := Sending \<lparr>zone = Zone (bl j), score = sc, err = e\<rparr>],
                     queried := queried s @ [j]\<rparr>"
      by simp
    show ?thesis
      by (rule that(4) [of i j sc e M "(workers s)[i := Sending \<lparr>zone = Zone (bl j), score = sc, err = e\<rparr>]"])
         (use Call Returned p s' i M in simp_all)
  next
    case (Panicked pv)
    from assms Call i Panicked
    have s': "s' = s\<lparr>workers := (workers s)[i := Done], err_var := Some (Errorf_recovered pv),
               err_writes := err_writes s @ [Errorf_recovered pv], queried := queried s @ [j]\<rparr>"
      by simp
    show ?thesis
      by (rule that(5) [of i j pv M "(workers s)[i := Done]"]) (use Call Panicked s' i M in simp_all)
  qed
next
  case (Deliver i)
  with assms obtain res where i: "i < length (workers s)" "workers s ! i = Sending res"
    and c: "collector s = Receiving"
    by (auto split: if_splits worker.splits)
  from assms Deliver i c have s': "s' = s\<lparr>workers := (workers s)[i := Done], collector := Holding res\<rparr>"
    by simp
  from worker_update [OF i(1)] obtain M where
    M: "mset (workers s) = add_mset (workers s ! i) M" "\<And>w. mset ((workers s)[i := w]) = add_mset w M"
    by blast
  show ?thesis
    by (rule that(6) [of i res M "(workers s)[i := Done]"]) (use Deliver c s' i M in simp_all)
next
  case Merge
  with assms show ?thesis
    by (auto split: collector_pc.splits intro: that(7))
next
  case CloseJobs
  with assms show ?thesis
    by (auto split: if_splits intro: that(8))
next
  case WaitAll
  with assms show ?thesis
    by (auto split: if_splits simp: list_all_iff intro: that(9))
next
  case CollectorExit
  with assms show ?thesis
    by (auto split: if_splits intro: that(10))
next
  case Return
  with assms show ?thesis
    by (auto split: if_splits intro: that(11))
next
  case Cancel
  with assms show ?thesis
    by (auto split: if_splits intro: that(12))
qed

lemma step_length_workers:
  assumes "step P r a s = Some s'"
  shows "length (workers s') = length (workers s)"
proof -
  have eq: "\<And>w w' M ws'. mset (workers s) = add_mset w M \<Longrightarrow> mset ws' = add_mset w' M
                \<Longrightarrow> length ws' = length (workers s)"
    by (metis size_mset size_add_mset)
  show ?thesis
    by (cases rule: step_cases [OF assms]) (auto intro: eq simp: merge_def Let_def split: option.splits)
qed

lemma step_inv_count:
  assumes "inv_count J s" and st: "step P r a s = Some s'"
  shows "inv_count J s'"
  using assms(1) step_length_workers [OF st]
  by (cases rule: step_cases [OF st])
     (auto simp: inv_count_def at_select_count_def jobs_held_def merge_def Let_def
           split: option.splits)

lemma step_inv_err:
  assumes "inv_err s" and st: "step P r a s = Some s'"
  shows "inv_err s'"
  using assms(1)
  by (cases rule: step_cases [OF st])
     (auto simp: inv_err_def merge_def Let_def split: option.splits)

lemma step_inv_results:
  assumes "inv_results P r s" and st: "step P r a s = Some s'"
  shows "inv_results P r s'"
  using assms(1)
  by (cases rule: step_cases [OF st])
     (auto simp: inv_results_def results_held_def job_score_def merge_def Let_def ac_simps
           split: option.splits)

lemma step_inv_jobs:
  assumes "inv_jobs J s" and "inv_count J s" and st: "step P r a s = Some s'"
  shows "inv_jobs J s'"
  using assms(1,2)
  by (cases rule: step_cases [OF st])
     (auto simp: inv_jobs_def inv_count_def jobs_held_def at_select_count_def merge_def Let_def
           split: option.splits)

lemma length_jobs: "length (jobs ds es) = length ds * length es"
  by (induction ds) (simp_all add: jobs_def)

lemma worker_count_le: "worker_count c n \<le> n"
  by (auto simp: worker_count_def)

lemma worker_count_le_concurrency: "0 \<le> c \<Longrightarrow> int (worker_count c n) \<le> c"
  by (simp add: worker_count_def)

lemma init_fields:
  "pending (lookupDomainBLs_init P D ord domains es c) = jobs (cleanupDomains P D ord domains) es"
  "workers (lookupDomainBLs_init P D ord domains es c)
     = replicate (worker_count c (length (jobs (cleanupDomains P D ord domains) es))) AtSelect"
  "collector (lookupDomainBLs_init P D ord domains es c) = Receiving"
  "main (lookupDomainBLs_init P D ord domains es c) = Producing"
  "score_var (lookupDomainBLs_init P D ord domains es c) = 0"
  "hits_var (lookupDomainBLs_init P D ord domains es c) = []"
  "err_var (lookupDomainBLs_init P D ord domains es c) = None"
  "ctx_done (lookupDomainBLs_init P D ord domains es c) = False"
  "queried (lookupDomainBLs_init P D ord domains es c) = []"
  "err_writes (lookupDomainBLs_init P D ord domains es c) = []"
  by (simp_all add: lookupDomainBLs_init_def Let_def length_jobs)

lemma sum_replicate_empty: "\<Sum>\<^sub># (replicate_mset n ({#} :: 'a multiset)) = {#}"
  by (induction n) simp_all

lemma init_inv:
  "inv_count (jobs (cleanupDomains P D ord domains) es) (lookupDomainBLs_init P D ord domains es c)"
  "inv_jobs (jobs (cleanupDomains P D ord domains) es) (lookupDomainBLs_init P D ord domains es c)"
  "inv_results P r (lookupDomainBLs_init P D ord domains es c)"
  "inv_err (lookupDomainBLs_init P D ord domains es c)"
  by (simp_all add: inv_count_def inv_jobs_def inv_results_def inv_err_def init_fields
        at_select_count_def jobs_held_def results_held_def worker_count_le
        sum_replicate_empty)

lemma reachable_inv:
  assumes "exec P r sched (lookupDomainBLs_init P D ord domains es c) = Some s"
  shows "inv_count (jobs (cleanupDomains P D ord domains) es) s"
    and "inv_jobs (jobs (cleanupDomains P D ord domains) es) s"
    and "inv_results P r s"
    and "inv_err s"
proof -
  let ?J = "jobs (cleanupDomains P D ord domains) es"
  let ?I = "\<lambda>s. inv_count ?J s \<and> inv_jobs ?J s \<and> inv_results P r s \<and> inv_err s"
  have "?I s"
  proof (rule exec_invariant [where I = ?I, OF _ _ assms])
    show "?I (lookupDomainBLs_init P D ord domains es c)"
      by (intro conjI init_inv)
  next
    fix a s1 s2
    assume "?I s1" and "step P r a s1 = Some s2"
    then show "?I s2"
      by (intro conjI) (blast intro: step_inv_count step_inv_jobs step_inv_results step_inv_err)+
  qed
  then show "inv_count ?J s" "inv_jobs ?J s" "inv_results P r s" "inv_err s"
    by blast+
qed

lemma all_done_sums:
  assumes "\<forall>w\<in>#M. w = Done"
  shows "(\<Sum>w\<in>#M. job_of w) = {#}" and "(\<Sum>w\<in>#M. result_of w) = {#}"
  using assms by (induction M) simp_all

lemma finished_state:
  assumes reach: "exec P r sched (lookupDomainBLs_init P D ord domains es c) = Some s"
    and fin: "main s = Finished"
  shows "mset (queried s) = mset (jobs (cleanupDomains P D ord domains) es)"
    and "score_var s = (\<Sum>j\<in>#mset (jobs (cleanupDomains P D ord domains) es). job_score P r j)"
    and "mset (hits_var s) =
           image_mset (\<lambda>j. Zone (bl j))
             (filter_mset (\<lambda>j. job_score P r j \<noteq> 0) (mset (jobs (cleanupDomains P D ord domains) es)))"
    and "length (jobs (cleanupDomains P D ord domains) es) \<le> length (workers s)"
proof -
  let ?J = "jobs (cleanupDomains P D ord domains) es"
  note inv = reachable_inv [OF reach]
  from inv(1) fin have alldone: "\<forall>w\<in>#mset (workers s). w = Done" and ex: "collector s = Exited"
    and pend: "pending s = []"
    by (simp_all add: inv_count_def)
  from all_done_sums [OF alldone] ex have held: "jobs_held s = {#}" "results_held s = {#}"
    by (simp_all add: jobs_held_def results_held_def)
  from inv(2) pend held show q: "mset (queried s) = mset ?J"
    by (simp add: inv_jobs_def)
  from inv(3) held show "score_var s = (\<Sum>j\<in>#mset ?J. job_score P r j)"
    by (simp add: inv_results_def q)
  from inv(3) held show "mset (hits_var s) =
           image_mset (\<lambda>j. Zone (bl j)) (filter_mset (\<lambda>j. job_score P r j \<noteq> 0) (mset ?J))"
    by (simp add: inv_results_def q)
  from inv(1) pend show "length ?J \<le> length (workers s)"
    by (simp add: inv_count_def)
qed

lemma exec_length_workers:
  "exec P r sched s = Some s' \<Longrightarrow> length (workers s') = length (workers s)"
proof (induction sched arbitrary: s)
  case Nil
  then show ?case by simp
next
  case (Cons a sched)
  then show ?case
    by (auto split: option.splits dest: step_length_workers)
qed

lemma lookupDomainBLs_SomeD:
  assumes "lookupDomainBLs P D ord r domains es c sched = Some (sc, hs, e)"
  obtains s where "exec P r sched (lookupDomainBLs_init P D ord domains es c) = Some s"
    and "main s = Finished" and "sc = score_var s" and "hs = hits_var s" and "e = err_var s"
  using assms by (auto simp: lookupDomainBLs_def split: option.splits if_splits)

lemma no_return_when_short_of_workers:
  assumes "worker_count c (length (cleanupDomains P D ord domains) * length es)
             < length (cleanupDomains P D ord domains) * length es"
  shows "lookupDomainBLs P D ord r domains es c sched = None"
proof (rule ccontr)
  assume "lookupDomainBLs P D ord r domains es c sched \<noteq> None"
  then obtain sc hs e where "lookupDomainBLs P D ord r domains es c sched = Some (sc, hs, e)"
    by (cases "lookupDomainBLs P D ord r domains es c sched") auto
  then obtain s where reach: "exec P r sched (lookupDomainBLs_init P D ord domains es c) = Some s"
    and fin: "main s = Finished"
    by (rule lookupDomainBLs_SomeD)
  from finished_state(4) [OF reach fin] exec_length_workers [OF reach]
  have "length (cleanupDomains P D ord domains) * length es
          \<le> worker_count c (length (cleanupDomains P D ord domains) * length es)"
    by (simp add: init_fields length_jobs)
  with assms show False by simp
qed

lemma lookups_made_bound:
  "inv_count J s \<Longrightarrow> length (lookups_made P r sched s) \<le> length (workers s)"
proof (induction sched arbitrary: s)
  case Nil
  then show ?case by (simp add: inv_count_def)
next
  case (Cons a sched)
  show ?case
  proof (cases "step P r a s")
    case None
    with Cons.prems show ?thesis by (simp add: inv_count_def)
  next
    case (Some s1)
    from step_inv_count [OF Cons.prems Some] have "inv_count J s1" .
    from Cons.IH [OF this] step_length_workers [OF Some] Some show ?thesis by simp
  qed
qed

lemma lookups_made_exec:
  "exec P r sched s = Some s' \<Longrightarrow> lookups_made P r sched s = queried s'"
  by (induction sched arbitrary: s) (auto split: option.splits)

subsection \<open>When the call returns\<close>

lemma worker_count_enough: "n \<le> nat c \<Longrightarrow> worker_count c n = n"
  by (auto simp: worker_count_def)

lemma exec_sends:
  assumes "pending s = js" and "workers s = map GotJob pre @ replicate (length js) AtSelect"
    and "main s = Producing"
  shows "exec P r (map Send [length pre..<length pre + length js]) s
           = Some (s\<lparr>pending := [], workers := map GotJob (pre @ js)\<rparr>)"
  using assms
proof (induction js arbitrary: pre s)
  case Nil
  then show ?case by simp
next
  case (Cons j js)
  let ?s1 = "s\<lparr>pending := js, workers := map GotJob (pre @ [j]) @ replicate (length js) AtSelect\<rparr>"
  have at: "at_select s (length pre)"
    using Cons.prems(2) by (simp add: at_select_def nth_append)
  have upd: "(workers s)[length pre := GotJob j] = map GotJob (pre @ [j]) @ replicate (length js) AtSelect"
    using Cons.prems(2) by (simp add: list_update_append)
  have st: "step P r (Send (length pre)) s = Some ?s1"
    using Cons.prems at upd by simp
  have "exec P r (map Send [length (pre @ [j])..<length (pre @ [j]) + length js]) ?s1
          = Some (?s1\<lparr>pending := [], workers := map GotJob ((pre @ [j]) @ js)\<rparr>)"
    by (rule Cons.IH) (use Cons.prems in simp_all)
  moreover have "[length pre..<length pre + length (j # js)]
                   = length pre # [length (pre @ [j])..<length (pre @ [j]) + length js]"
    by (subst upt_rec) simp
  ultimately show ?case using st by simp
qed

lemma merge_frame:
  "pending (merge res s) = pending s" "workers (merge res s) = workers s"
  "collector (merge res s) = collector s" "main (merge res s) = main s"
  by (simp_all add: merge_def Let_def split: option.splits)

lemma exec_rounds:
  assumes "workers s = replicate k Done @ map GotJob js" and "collector s = Receiving"
  shows "\<exists>s'. exec P r (rounds P r k js) s = Some s'
            \<and> workers s' = replicate (k + length js) Done \<and> collector s' = Receiving
            \<and> main s' = main s \<and> pending s' = pending s"
  using assms
proof (induction js arbitrary: k s)
  case Nil
  then show ?case by simp
next
  case (Cons j js)
  have k: "k < length (workers s)" "workers s ! k = GotJob j"
    using Cons.prems(1) by (simp_all add: nth_append)
  have upd: "\<And>w. (workers s)[k := w] = replicate k Done @ w # map GotJob js"
    using Cons.prems(1) by (simp add: list_update_append)
  have next_ws: "replicate k Done @ Done # map GotJob js = replicate (Suc k) Done @ map GotJob js"
    by (simp add: replicate_app_Cons_same)
  show ?case
  proof (cases "lookupDomainBL P r (domain j) (bl j)")
    case (Returned p)
    obtain sc e where p: "p = (sc, e)" by (cases p)
    let ?res = "\<lparr>zone = Zone (bl j), score = sc, err = e\<rparr>"
    let ?s1 = "s\<lparr>workers := replicate k Done @ Sending ?res # map GotJob js,
                  queried := queried s @ [j]\<rparr>"
    let ?s2 = "?s1\<lparr>workers := replicate (Suc k) Done @ map GotJob js, collector := Holding ?res\<rparr>"
    let ?s3 = "merge ?res (?s2\<lparr>collector := Receiving\<rparr>)"
    have c1: "step P r (Call k) s = Some ?s1"
      using k Returned p upd by simp
    have c2: "step P r (Deliver k) ?s1 = Some ?s2"
      using Cons.prems(2) by (simp add: nth_append list_update_append next_ws)
    have c3: "step P r Merge ?s2 = Some ?s3"
      by simp
    have "\<exists>s'. exec P r (rounds P r (Suc k) js) ?s3 = Some s'
            \<and> workers s' = replicate (Suc k + length js) Done \<and> collector s' = Receiving
            \<and> main s' = main ?s3 \<and> pending s' = pending ?s3"
      by (rule Cons.IH) (simp_all add: merge_frame)
    then obtain s' where s': "exec P r (rounds P r (Suc k) js) ?s3 = Some s'"
      "workers s' = replicate (Suc k + length js) Done" "collector s' = Receiving"
      "main s' = main ?s3" "pending s' = pending ?s3"
      by blast
    have "exec P r (rounds P r k (j # js)) s = Some s'"
      using Returned c1 c2 c3 s'(1) by (simp del: step.simps)
    with s'(2-5) show ?thesis by (simp add: merge_frame)
  next
    case (Panicked pv)
    let ?s1 = "s\<lparr>workers := replicate (Suc k) Done @ map GotJob js,
                  err_var := Some (Errorf_recovered pv),
                  err_writes := err_writes s @ [Errorf_recovered pv],
                  queried := queried s @ [j]\<rparr>"
    have c1: "step P r (Call k) s = Some ?s1"
      using k Panicked upd next_ws by simp
    have "\<exists>s'. exec P r (rounds P r (Suc k) js) ?s1 = Some s'
            \<and> workers s' = replicate (Suc k + length js) Done \<and> collector s' = Receiving
            \<and> main s' = main ?s1 \<and> pending s' = pending ?s1"
      by (rule Cons.IH) (use Cons.prems(2) in simp_all)
    then obtain s' where s': "exec P r (rounds P r (Suc k) js) ?s1 = Some s'"
      "workers s' = replicate (Suc k + length js) Done" "collector s' = Receiving"
      "main s' = main ?s1" "pending s' = pending ?s1"
      by blast
    have "exec P r (rounds P r k (j # js)) s = Some s'"
      using Panicked c1 s'(1) by (simp del: step.simps)
    with s'(2-5) show ?thesis by simp
  qed
qed

lemma returns_when_enough_workers:
  assumes "length (cleanupDomains P D ord domains) * length es \<le> nat c"
  shows "\<exists>sched. lookupDomainBLs P D ord r domains es c sched \<noteq> None"
proof -
  let ?J = "jobs (cleanupDomains P D ord domains) es"
  let ?init = "lookupDomainBLs_init P D ord domains es c"
  from assms have "length ?J \<le> nat c" by (simp add: length_jobs)
  then have wc: "worker_count c (length ?J) = length ?J"
    by (rule worker_count_enough)
  have "exec P r (map Send [length ([] :: lookup list)..<length ([] :: lookup list) + length ?J]) ?init
          = Some (?init\<lparr>pending := [], workers := map GotJob ([] @ ?J)\<rparr>)"
    by (rule exec_sends) (simp_all add: init_fields wc)
  then have e1: "exec P r (map Send [0..<length ?J]) ?init
                   = Some (?init\<lparr>pending := [], workers := map GotJob ?J\<rparr>)"
    by simp
  let ?s1 = "?init\<lparr>pending := [], workers := map GotJob ?J\<rparr>"
  have "\<exists>s'. exec P r (rounds P r 0 ?J) ?s1 = Some s'
            \<and> workers s' = replicate (0 + length ?J) Done \<and> collector s' = Receiving
            \<and> main s' = main ?s1 \<and> pending s' = pending ?s1"
    by (rule exec_rounds) (simp_all add: init_fields)
  then obtain s2 where s2: "exec P r (rounds P r 0 ?J) ?s1 = Some s2"
    "workers s2 = replicate (length ?J) Done" "collector s2 = Receiving"
    "main s2 = Producing" "pending s2 = []"
    by (auto simp: init_fields)
  let ?s3 = "s2\<lparr>main := Finished, collector := Exited\<rparr>"
  have e3: "exec P r [CloseJobs, WaitAll, CollectorExit, Return] s2 = Some ?s3"
    using s2(2-5) by (simp add: list_all_iff)
  have "exec P r (map Send [0..<length ?J] @ rounds P r 0 ?J @ [CloseJobs, WaitAll, CollectorExit, Return]) ?init
          = Some ?s3"
    using e1 s2(1) e3 by (simp add: exec_append del: exec.simps)
  then have "lookupDomainBLs P D ord r domains es c
               (map Send [0..<length ?J] @ rounds P r 0 ?J @ [CloseJobs, WaitAll, CollectorExit, Return])
             \<noteq> None"
    by (simp add: lookupDomainBLs_def del: exec.simps)
  then show ?thesis by blast
qed

text \<open>The call can return exactly if the jobs do not outnumber the ceiling.\<close>

lemma returns_iff_enough_workers:
  "(\<exists>sched. lookupDomainBLs P D ord r domains es c sched \<noteq> None)
     = (length (cleanupDomains P D ord domains) * length es \<le> nat c)"
proof
  assume "\<exists>sched. lookupDomainBLs P D ord r domains es c sched \<noteq> None"
  then obtain sched where ret: "lookupDomainBLs P D ord r domains es c sched \<noteq> None" by blast
  show "length (cleanupDomains P D ord domains) * length es \<le> nat c"
  proof (rule ccontr)
    assume "\<not> length (cleanupDomains P D ord domains) * length es \<le> nat c"
    then have "worker_count c (length (cleanupDomains P D ord domains) * length es)
                 < length (cleanupDomains P D ord domains) * length es"
      by (auto simp: worker_count_def)
    from no_return_when_short_of_workers [OF this, where r = r and sched = sched] ret
    show False by simp
  qed
next
  assume "length (cleanupDomains P D ord domains) * length es \<le> nat c"
  then show "\<exists>sched. lookupDomainBLs P D ord r domains es c sched \<noteq> None"
    by (rule returns_when_enough_workers)
qed

subsection \<open>Every run ends, and within the ceiling it ends in the return\<close>

lemma step_steps_left:
  assumes st: "step P r a s = Some s'"
  shows "Suc (steps_left s') \<le> steps_left s"
  by (cases rule: step_cases [OF st])
     (auto simp: steps_left_def merge_def Let_def split: option.splits)

lemma exec_steps_left:
  "exec P r sched s = Some s' \<Longrightarrow> length sched + steps_left s' \<le> steps_left s"
proof (induction sched arbitrary: s)
  case Nil
  then show ?case by simp
next
  case (Cons a sched)
  from Cons.prems obtain s1 where s1: "step P r a s = Some s1" "exec P r sched s1 = Some s'"
    by (auto split: option.splits)
  from Cons.IH [OF s1(2)] step_steps_left [OF s1(1)] show ?case by simp
qed

lemma sum_weight_replicate: "(\<Sum>w\<in>#replicate_mset n AtSelect. worker_weight w) = 4 * n"
  by (induction n) simp_all

lemma steps_left_init:
  "steps_left (lookupDomainBLs_init P D ord domains es c)
     = 4 * worker_count c (length (jobs (cleanupDomains P D ord domains) es)) + 5"
  by (simp add: steps_left_def init_fields sum_weight_replicate)

lemma step_inv_live:
  assumes "inv_live J s" and "inv_count J s" and "a \<noteq> Cancel" and st: "step P r a s = Some s'"
  shows "inv_live J s'"
  using assms(1-3) step_length_workers [OF st]
  by (cases rule: step_cases [OF st])
     (auto simp: inv_live_def inv_count_def at_select_count_def merge_def Let_def split: option.splits)

lemma exec_inv_live:
  assumes "inv_live J s" and "inv_count J s" and "Cancel \<notin> set sched"
    and "exec P r sched s = Some s'"
  shows "inv_live J s' \<and> inv_count J s'"
  using assms
proof (induction sched arbitrary: s)
  case Nil
  then show ?case by simp
next
  case (Cons a sched)
  from Cons.prems(4) obtain s1 where s1: "step P r a s = Some s1" "exec P r sched s1 = Some s'"
    by (auto split: option.splits)
  from Cons.prems(3) have a: "a \<noteq> Cancel" and rest: "Cancel \<notin> set sched" by auto
  from step_inv_live [OF Cons.prems(1,2) a s1(1)] step_inv_count [OF Cons.prems(2) s1(1)]
  have "inv_live J s1" "inv_count J s1" .
  from Cons.IH [OF this rest s1(2)] show ?case .
qed

lemma worker_at:
  assumes "w \<in># mset ws"
  obtains i where "i < length ws" and "ws ! i = w"
  using assms by (auto simp: in_set_conv_nth)

lemma live_progress:
  assumes live: "inv_live J s" and cnt: "inv_count J s"
    and enough: "length (workers s) = length J" and nf: "main s \<noteq> Finished"
  shows "\<exists>a. a \<noteq> Cancel \<and> step P r a s \<noteq> None"
proof -
  from live enough have sel: "at_select_count s = length (pending s)"
    by (simp add: inv_live_def)
  have stuck_worker: "\<exists>a. a \<noteq> Cancel \<and> step P r a s \<noteq> None"
    if w: "w \<in># mset (workers s)" "w \<noteq> Done" "pending s = []" "main s \<noteq> Producing"
          "collector s \<noteq> Exited" for w
  proof -
    from w(1) obtain i where i: "i < length (workers s)" "workers s ! i = w" by (rule worker_at)
    show ?thesis
    proof (cases w)
      case AtSelect
      with w(1) have "0 < at_select_count s" by (simp add: at_select_count_def)
      with sel w(3) show ?thesis by simp
    next
      case (GotJob j)
      with i have "step P r (Call i) s \<noteq> None"
        by (cases "lookupDomainBL P r (domain j) (bl j)") auto
      then show ?thesis by blast
    next
      case (Sending res)
      show ?thesis
      proof (cases "collector s")
        case Receiving
        with i Sending have "step P r (Deliver i) s \<noteq> None" by simp
        then show ?thesis by blast
      next
        case (Holding res')
        then have "step P r Merge s \<noteq> None" by simp
        then show ?thesis by blast
      next
        case Exited
        with w(5) show ?thesis by simp
      qed
    next
      case Done
      with w(2) show ?thesis by simp
    qed
  qed
  show ?thesis
  proof (cases "main s")
    case Producing
    show ?thesis
    proof (cases "pending s")
      case Nil
      with Producing have "step P r CloseJobs s \<noteq> None" by simp
      then show ?thesis by blast
    next
      case (Cons j js)
      with sel have "0 < count (mset (workers s)) AtSelect"
        by (simp add: at_select_count_def)
      then have "AtSelect \<in># mset (workers s)"
        by (simp only: count_greater_zero_iff)
      then obtain i where "i < length (workers s)" "workers s ! i = AtSelect" by (rule worker_at)
      with Producing Cons have "step P r (Send i) s \<noteq> None" by (simp add: at_select_def)
      then show ?thesis by blast
    qed
  next
    case Waiting
    from cnt Waiting have p: "pending s = []" by (simp add: inv_count_def)
    from live Waiting have c: "collector s \<noteq> Exited" by (auto simp: inv_live_def)
    show ?thesis
    proof (cases "\<forall>w\<in>#mset (workers s). w = Done")
      case True
      with Waiting have "step P r WaitAll s \<noteq> None" by (simp add: list_all_iff)
      then show ?thesis by blast
    next
      case False
      then obtain w where "w \<in># mset (workers s)" "w \<noteq> Done" by blast
      then show ?thesis using p Waiting c by (intro stuck_worker [of w]) simp_all
    qed
  next
    case Draining
    show ?thesis
    proof (cases "collector s")
      case Receiving
      with Draining have "step P r CollectorExit s \<noteq> None" by simp
      then show ?thesis by blast
    next
      case (Holding res)
      then have "step P r Merge s \<noteq> None" by simp
      then show ?thesis by blast
    next
      case Exited
      with Draining have "step P r Return s \<noteq> None" by simp
      then show ?thesis by blast
    qed
  next
    case Finished
    with nf show ?thesis by simp
  qed
qed

lemma init_inv_live:
  "length (cleanupDomains P D ord domains) * length es \<le> nat c \<Longrightarrow>
   inv_live (jobs (cleanupDomains P D ord domains) es) (lookupDomainBLs_init P D ord domains es c)"
  by (simp add: inv_live_def init_fields at_select_count_def worker_count_enough length_jobs)

lemma uncancelled_runs_return:
  assumes enough: "length (cleanupDomains P D ord domains) * length es \<le> nat c"
    and nc: "Cancel \<notin> set sched"
    and run: "exec P r sched (lookupDomainBLs_init P D ord domains es c) = Some s"
  shows "length sched \<le> 4 * (length (cleanupDomains P D ord domains) * length es) + 5"
    and "main s \<noteq> Finished \<Longrightarrow> \<exists>a. a \<noteq> Cancel \<and> step P r a s \<noteq> None"
proof -
  let ?J = "jobs (cleanupDomains P D ord domains) es"
  let ?init = "lookupDomainBLs_init P D ord domains es c"
  from enough have wc: "worker_count c (length ?J) = length ?J"
    by (simp add: worker_count_enough length_jobs)
  from exec_steps_left [OF run] steps_left_init [of P D ord domains es c] wc
  show "length sched \<le> 4 * (length (cleanupDomains P D ord domains) * length es) + 5"
    by (simp add: length_jobs)
  from exec_inv_live [OF init_inv_live [OF enough] init_inv(1) nc run]
  have inv: "inv_live ?J s" "inv_count ?J s" by simp_all
  from exec_length_workers [OF run] wc have len: "length (workers s) = length ?J"
    by (simp add: init_fields)
  assume "main s \<noteq> Finished"
  with inv len show "\<exists>a. a \<noteq> Cancel \<and> step P r a s \<noteq> None"
    by (intro live_progress)
qed


subsection \<open>More jobs than workers\<close>

lemma cleanup_nine: "cleanupDomains ParseIP_dotted Domain_default_rule id nine_domains = nine_domains"
  by code_simp

lemma worker_count_8_9: "worker_count concurrency 9 = 8"
  by (simp add: worker_count_def concurrency_def)

text \<open>
  C1. The claim fails on the code where there are more jobs than workers. A worker takes one
  job and returns, and never more than \<open>concurrency\<close> workers are started; the caller then
  waits forever in its send of the next job. With nine domains, one list and the ceiling 8
  that \<open>CheckBody\<close> passes, no schedule reaches the \<open>return\<close>, and no schedule makes more than
  8 of the 9 lookups.
\<close>

theorem lookupDomainBLs_nine_jobs_never_return:
  "lookupDomainBLs ParseIP_dotted Domain_default_rule id resolver_miss nine_domains [entry_a]
     concurrency sched = None
   \<and> length (lookups_made ParseIP_dotted resolver_miss sched
        (lookupDomainBLs_init ParseIP_dotted Domain_default_rule id nine_domains [entry_a] concurrency))
       \<le> 8
   \<and> length (jobs (cleanupDomains ParseIP_dotted Domain_default_rule id nine_domains) [entry_a]) = 9"
proof -
  let ?init = "lookupDomainBLs_init ParseIP_dotted Domain_default_rule id nine_domains [entry_a] concurrency"
  have n: "length (cleanupDomains ParseIP_dotted Domain_default_rule id nine_domains) * length [entry_a] = 9"
    unfolding cleanup_nine by (simp add: nine_domains_def)
  have "worker_count concurrency
          (length (cleanupDomains ParseIP_dotted Domain_default_rule id nine_domains) * length [entry_a])
        < length (cleanupDomains ParseIP_dotted Domain_default_rule id nine_domains) * length [entry_a]"
    unfolding n by (simp add: worker_count_8_9)
  then have never: "lookupDomainBLs ParseIP_dotted Domain_default_rule id resolver_miss nine_domains
                      [entry_a] concurrency sched = None"
    by (rule no_return_when_short_of_workers)
  have "length (workers ?init) = 8"
    using n by (simp add: init_fields length_jobs worker_count_8_9)
  with lookups_made_bound [OF init_inv(1), of ParseIP_dotted resolver_miss sched
         ParseIP_dotted Domain_default_rule id nine_domains "[entry_a]" concurrency]
  have few: "length (lookups_made ParseIP_dotted resolver_miss sched ?init) \<le> 8"
    by simp
  from never few n show ?thesis by (simp add: length_jobs)
qed


text \<open>The state after eight rounds: eight lookups made, the ninth job still to be sent,
  every worker gone. Nothing but a cancellation can happen in it, and a cancellation
  changes nothing else.\<close>

lemma lookupDomainBLs_nine_jobs_blocked:
  "exec ParseIP_dotted resolver_miss eight_rounds
     (lookupDomainBLs_init ParseIP_dotted Domain_default_rule id nine_domains [entry_a] concurrency)
   = Some \<lparr>pending = [\<lparr>domain = ''i.example'', bl = entry_a\<rparr>],
           workers = replicate 8 Done, collector = Receiving, main = Producing,
           score_var = 0, hits_var = [], err_var = None, ctx_done = False,
           queried = take 8 (jobs nine_domains [entry_a]), err_writes = []\<rparr>"
  by code_simp

lemma blocked_forever:
  assumes "pending s \<noteq> []" and "\<forall>w\<in>#mset (workers s). w = Done"
    and "main s = Producing" and "collector s = Receiving"
    and "step P r a s = Some s'"
  shows "a = Cancel \<and> s' = s\<lparr>ctx_done := True\<rparr>"
  using assms(1-4) by (cases rule: step_cases [OF assms(5)]) auto


subsection \<open>A call without jobs\<close>

lemma jobs_empty: "ds = [] \<or> es = [] \<Longrightarrow> jobs ds es = []"
  by (auto simp: jobs_def)

lemma init_idle:
  assumes "cleanupDomains P D ord domains = [] \<or> es = []"
  shows "inv_idle (lookupDomainBLs_init P D ord domains es c)"
    and "rank (lookupDomainBLs_init P D ord domains es c) = 0"
  using jobs_empty [OF assms]
  by (simp_all add: inv_idle_def rank_def init_fields worker_count_def)

lemma step_idle:
  assumes "inv_idle s" and st: "step P r a s = Some s'"
  shows "inv_idle s' \<and> rank s' = Suc (rank s)"
  using assms(1)
  by (cases rule: step_cases [OF st]) (auto simp: inv_idle_def rank_def)

lemma exec_idle:
  "inv_idle s \<Longrightarrow> exec P r sched s = Some s' \<Longrightarrow> inv_idle s' \<and> rank s' = rank s + length sched"
proof (induction sched arbitrary: s)
  case Nil
  then show ?case by simp
next
  case (Cons a sched)
  from Cons.prems(2) obtain s1 where s1: "step P r a s = Some s1" "exec P r sched s1 = Some s'"
    by (auto split: option.splits)
  from step_idle [OF Cons.prems(1) s1(1)] Cons.IH [OF _ s1(2)] show ?case by simp
qed

lemma lookups_made_idle:
  "inv_idle s \<Longrightarrow> lookups_made P r sched s = []"
proof (induction sched arbitrary: s)
  case Nil
  then show ?case by (simp add: inv_idle_def)
next
  case (Cons a sched)
  show ?case
  proof (cases "step P r a s")
    case None
    with Cons.prems show ?thesis by (simp add: inv_idle_def)
  next
    case (Some s1)
    with step_idle [OF Cons.prems Some] Cons.IH [of s1] show ?thesis by simp
  qed
qed

lemma rank_le: "rank s \<le> 5"
  by (cases "main s") (simp_all add: rank_def)

lemma idle_progress:
  assumes "inv_idle s" and "main s \<noteq> Finished"
  shows "\<exists>a. a \<noteq> Cancel \<and> step P r a s \<noteq> None"
proof (cases "main s")
  case Producing
  with assms have "step P r CloseJobs s \<noteq> None" by (simp add: inv_idle_def)
  then show ?thesis by blast
next
  case Waiting
  with assms have "step P r WaitAll s \<noteq> None" by (simp add: inv_idle_def)
  then show ?thesis by blast
next
  case Draining
  from assms(1) consider "collector s = Receiving" | "collector s = Exited"
    by (auto simp: inv_idle_def)
  then show ?thesis
  proof cases
    case 1
    with Draining have "step P r CollectorExit s \<noteq> None" by simp
    then show ?thesis by blast
  next
    case 2
    with Draining have "step P r Return s \<noteq> None" by simp
    then show ?thesis by blast
  qed
next
  case Finished
  with assms show ?thesis by simp
qed

text \<open>
  C8. When the normalized domain list or the list of registry entries is empty, then for
  every resolver and every concurrency ceiling the call returns score 0, no hits and no
  error without a single lookup: the run of the four steps of the caller and the collector
  returns that; every run that returns returns that; no schedule makes a lookup; and every
  run ends, since it has at most five steps and is never blocked before the return.
\<close>

theorem lookupDomainBLs_without_jobs:
  assumes "cleanupDomains P D ord domains = [] \<or> es = []"
  shows "lookupDomainBLs P D ord r domains es c [CloseJobs, WaitAll, CollectorExit, Return]
           = Some (0, [], None)
     \<and> (\<forall>sched ret. lookupDomainBLs P D ord r domains es c sched = Some ret \<longrightarrow> ret = (0, [], None))
     \<and> (\<forall>sched. lookups_made P r sched (lookupDomainBLs_init P D ord domains es c) = [])
     \<and> (\<forall>sched s. exec P r sched (lookupDomainBLs_init P D ord domains es c) = Some s \<longrightarrow>
           length sched \<le> 5 \<and> (main s \<noteq> Finished \<longrightarrow> (\<exists>a. a \<noteq> Cancel \<and> step P r a s \<noteq> None)))"
proof (intro conjI allI impI)
  let ?init = "lookupDomainBLs_init P D ord domains es c"
  note idle = init_idle [OF assms, of c]
  from idle(1) have p: "pending ?init = []" "workers ?init = []"
    by (simp_all add: inv_idle_def)
  show "lookupDomainBLs P D ord r domains es c [CloseJobs, WaitAll, CollectorExit, Return]
           = Some (0, [], None)"
    by (simp add: lookupDomainBLs_def p init_fields(3-10))
  fix sched
  from idle(1) show "lookups_made P r sched ?init = []" by (rule lookups_made_idle)
next
  fix sched ret
  assume "lookupDomainBLs P D ord r domains es c sched = Some ret"
  then obtain s where s: "exec P r sched (lookupDomainBLs_init P D ord domains es c) = Some s"
    and ret: "ret = (score_var s, hits_var s, err_var s)"
    by (auto simp: lookupDomainBLs_def split: option.splits if_splits)
  from exec_idle [OF init_idle(1) [OF assms] s] have "inv_idle s" by simp
  with ret show "ret = (0, [], None)" by (simp add: inv_idle_def)
next
  fix sched s
  assume s: "exec P r sched (lookupDomainBLs_init P D ord domains es c) = Some s"
  from exec_idle [OF init_idle(1) [OF assms] s] init_idle(2) [OF assms, of c]
  have i: "inv_idle s" and "rank s = length sched" by simp_all
  with rank_le [of s] show "length sched \<le> 5" by simp
  assume "main s \<noteq> Finished"
  with i show "\<exists>a. a \<noteq> Cancel \<and> step P r a s \<noteq> None" by (rule idle_progress)
qed

lemma cleanupDomains_all_dropped:
  "cleanupDomains ParseIP_loopback6 Domain_default_rule id [[], ''::1''] = []"
  by code_simp

theorem lookupDomainBLs_without_jobs_witness:
  "cleanupDomains ParseIP_loopback6 Domain_default_rule id [[], ''::1''] = []
   \<and> lookupDomainBLs ParseIP_loopback6 Domain_default_rule id resolver_hit [[], ''::1'']
        [entry_a, entry_b] concurrency [CloseJobs, WaitAll, CollectorExit, Return]
       = Some (0, [], None)
   \<and> lookupDomainBLs ParseIP_loopback6 Domain_default_rule id resolver_hit [''spam.example'']
        [] concurrency [CloseJobs, WaitAll, CollectorExit, Return]
       = Some (0, [], None)
   \<and> lookups_made ParseIP_loopback6 resolver_hit [CloseJobs, Cancel, WaitAll, Send 0]
        (lookupDomainBLs_init ParseIP_loopback6 Domain_default_rule id [[], ''::1'']
           [entry_a, entry_b] concurrency) = []"
proof -
  have h1: "cleanupDomains ParseIP_loopback6 Domain_default_rule id [[], ''::1''] = []
              \<or> [entry_a, entry_b] = []"
    by (simp add: cleanupDomains_all_dropped)
  have h2: "cleanupDomains ParseIP_loopback6 Domain_default_rule id [''spam.example''] = []
              \<or> ([] :: List_cfg list) = []"
    by simp
  note t1 = lookupDomainBLs_without_jobs [OF h1, of resolver_hit concurrency]
  note t2 = lookupDomainBLs_without_jobs [OF h2, of resolver_hit concurrency]
  from t1 have a: "lookupDomainBLs ParseIP_loopback6 Domain_default_rule id resolver_hit [[], ''::1'']
        [entry_a, entry_b] concurrency [CloseJobs, WaitAll, CollectorExit, Return]
       = Some (0, [], None)"
    by blast
  from t2 have b: "lookupDomainBLs ParseIP_loopback6 Domain_default_rule id resolver_hit [''spam.example'']
        [] concurrency [CloseJobs, WaitAll, CollectorExit, Return]
       = Some (0, [], None)"
    by blast
  from t1 have c: "lookups_made ParseIP_loopback6 resolver_hit [CloseJobs, Cancel, WaitAll, Send 0]
        (lookupDomainBLs_init ParseIP_loopback6 Domain_default_rule id [[], ''::1'']
           [entry_a, entry_b] concurrency) = []"
    by blast
  from cleanupDomains_all_dropped a b c show ?thesis by (intro conjI)
qed

subsection \<open>Which error is returned\<close>

text \<open>
  C2 (as stated). The first error does not win. With two failing jobs, the collector has
  recorded the error of zone \<open>a.bl.example\<close> after the first merge, and the call returns the
  error of zone \<open>b.bl.example\<close>, merged second.
\<close>

theorem lookupDomainBLs_later_error_replaces_first:
  "map_option err_var
     (exec ParseIP_dotted resolver_fail [Send 0, Send 1, Call 0, Call 1, Deliver 0, Merge]
        (lookupDomainBLs_init ParseIP_dotted Domain_default_rule id [''spam.example'']
           [entry_a, entry_b] concurrency))
     = Some (Some (Errorf_zone ''a.bl.example'' (DNSError False True ''server misbehaving'')))
   \<and> lookupDomainBLs ParseIP_dotted Domain_default_rule id resolver_fail [''spam.example'']
        [entry_a, entry_b] concurrency
        [Send 0, Send 1, Call 0, Call 1, Deliver 0, Merge, Deliver 1, Merge,
         CloseJobs, WaitAll, CollectorExit, Return]
     = Some (0, [], Some (Errorf_zone ''b.bl.example'' (DNSError False True ''server misbehaving'')))"
  by code_simp

text \<open>
  C2 (amended). The error the call returns is the value assigned to \<open>err\<close> last, and \<open>nil\<close>
  when nothing was assigned: every failing result the collector merges replaces the error
  recorded before it (as every recovered panic and every observed cancellation does), so
  with several failing jobs the one merged last is returned and the earlier ones are lost.
\<close>

theorem lookupDomainBLs_returns_last_error:
  "(lookupDomainBLs P D ord r domains es c sched = Some (sc, hs, e) \<longrightarrow>
      (\<exists>s. exec P r sched (lookupDomainBLs_init P D ord domains es c) = Some s
           \<and> main s = Finished
           \<and> e = (if err_writes s = [] then None else Some (last (err_writes s)))))
   \<and> (collector s0 = Holding res \<and> err res = Some e0 \<longrightarrow>
      (\<exists>s1. step P r Merge s0 = Some s1
            \<and> err_var s1 = Some (Errorf_zone (zone res) e0)
            \<and> err_writes s1 = err_writes s0 @ [Errorf_zone (zone res) e0]))"
proof (intro conjI impI)
  assume "lookupDomainBLs P D ord r domains es c sched = Some (sc, hs, e)"
  then obtain s where s: "exec P r sched (lookupDomainBLs_init P D ord domains es c) = Some s"
    "main s = Finished" "e = err_var s"
    by (rule lookupDomainBLs_SomeD)
  from reachable_inv(4) [OF s(1)] s(3)
  have "e = (if err_writes s = [] then None else Some (last (err_writes s)))"
    by (simp add: inv_err_def)
  with s(1,2) show "\<exists>s. exec P r sched (lookupDomainBLs_init P D ord domains es c) = Some s
           \<and> main s = Finished
           \<and> e = (if err_writes s = [] then None else Some (last (err_writes s)))"
    by blast
next
  assume "collector s0 = Holding res \<and> err res = Some e0"
  then show "\<exists>s1. step P r Merge s0 = Some s1
            \<and> err_var s1 = Some (Errorf_zone (zone res) e0)
            \<and> err_writes s1 = err_writes s0 @ [Errorf_zone (zone res) e0]"
    by (simp add: merge_def Let_def)
qed

lemma two_failures_run:
  "exec ParseIP_dotted resolver_fail
        [Send 0, Send 1, Call 0, Call 1, Deliver 0, Merge, Deliver 1, Merge,
         CloseJobs, WaitAll, CollectorExit, Return]
        (lookupDomainBLs_init ParseIP_dotted Domain_default_rule id [''spam.example'']
           [entry_a, entry_b] concurrency)
   = Some \<lparr>pending = [], workers = [Done, Done], collector = Exited, main = Finished,
           score_var = 0, hits_var = [],
           err_var = Some (Errorf_zone ''b.bl.example'' (DNSError False True ''server misbehaving'')),
           ctx_done = False,
           queried = [\<lparr>domain = ''spam.example'', bl = entry_a\<rparr>, \<lparr>domain = ''spam.example'', bl = entry_b\<rparr>],
           err_writes = [Errorf_zone ''a.bl.example'' (DNSError False True ''server misbehaving''),
                         Errorf_zone ''b.bl.example'' (DNSError False True ''server misbehaving'')]\<rparr>"
  by code_simp

theorem lookupDomainBLs_returns_last_error_witness:
  "lookupDomainBLs ParseIP_dotted Domain_default_rule id resolver_fail [''spam.example'']
        [entry_a, entry_b] concurrency
        [Send 0, Send 1, Call 0, Call 1, Deliver 0, Merge, Deliver 1, Merge,
         CloseJobs, WaitAll, CollectorExit, Return]
     = Some (0, [], Some (Errorf_zone ''b.bl.example'' (DNSError False True ''server misbehaving'')))
   \<and> (\<exists>s. exec ParseIP_dotted resolver_fail
        [Send 0, Send 1, Call 0, Call 1, Deliver 0, Merge, Deliver 1, Merge,
         CloseJobs, WaitAll, CollectorExit, Return]
        (lookupDomainBLs_init ParseIP_dotted Domain_default_rule id [''spam.example'']
           [entry_a, entry_b] concurrency) = Some s
        \<and> err_writes s = [Errorf_zone ''a.bl.example'' (DNSError False True ''server misbehaving''),
                           Errorf_zone ''b.bl.example'' (DNSError False True ''server misbehaving'')]
        \<and> Some (Errorf_zone ''b.bl.example'' (DNSError False True ''server misbehaving''))
            = (if err_writes s = [] then None else Some (last (err_writes s))))"
proof -
  let ?sched = "[Send 0, Send 1, Call 0, Call 1, Deliver 0, Merge, Deliver 1, Merge,
         CloseJobs, WaitAll, CollectorExit, Return]"
  let ?eb = "Errorf_zone ''b.bl.example'' (DNSError False True ''server misbehaving'')"
  have run: "lookupDomainBLs ParseIP_dotted Domain_default_rule id resolver_fail [''spam.example'']
        [entry_a, entry_b] concurrency ?sched = Some (0, [], Some ?eb)"
    unfolding lookupDomainBLs_def two_failures_run by simp
  from lookupDomainBLs_returns_last_error
         [where P = ParseIP_dotted and D = Domain_default_rule and ord = id and r = resolver_fail
            and domains = "[''spam.example'']" and es = "[entry_a, entry_b]" and c = concurrency
            and sched = ?sched and sc = 0 and hs = "[]" and e = "Some ?eb"]
       run
  obtain s where s: "exec ParseIP_dotted resolver_fail ?sched
        (lookupDomainBLs_init ParseIP_dotted Domain_default_rule id [''spam.example'']
           [entry_a, entry_b] concurrency) = Some s"
     "Some ?eb = (if err_writes s = [] then None else Some (last (err_writes s)))"
    by blast
  from s(1) have "err_writes s = [Errorf_zone ''a.bl.example'' (DNSError False True ''server misbehaving''), ?eb]"
    unfolding two_failures_run by auto
  with run s show ?thesis by blast
qed

subsection \<open>Independence of the schedule\<close>

text \<open>Every run that returns has looked up every job exactly once.\<close>

lemma every_return_made_every_lookup:
  assumes "lookupDomainBLs P D ord r domains es c sched = Some ret"
  shows "mset (lookups_made P r sched (lookupDomainBLs_init P D ord domains es c))
           = mset (jobs (cleanupDomains P D ord domains) es)"
proof -
  obtain sc hs e where "ret = (sc, hs, e)" by (cases ret)
  with assms obtain s where s: "exec P r sched (lookupDomainBLs_init P D ord domains es c) = Some s"
    "main s = Finished"
    by (auto elim: lookupDomainBLs_SomeD)
  from finished_state(1) [OF s] lookups_made_exec [OF s(1)] show ?thesis by simp
qed

lemma mset_jobs:
  "mset (jobs ds es) = (\<Sum>d\<in>#mset ds. mset (map (\<lambda>b. \<lparr>domain = d, bl = b\<rparr>) es))"
proof -
  have "mset (jobs ds es) = sum_list (map (\<lambda>d. mset (map (\<lambda>b. \<lparr>domain = d, bl = b\<rparr>) es)) ds)"
    by (simp add: jobs_def mset_concat comp_def)
  also have "\<dots> = \<Sum>\<^sub># (mset (map (\<lambda>d. mset (map (\<lambda>b. \<lparr>domain = d, bl = b\<rparr>) es)) ds))"
    by (simp only: sum_mset_sum_list)
  finally show ?thesis by simp
qed

lemma mset_jobs_cong: "mset ds = mset ds' \<Longrightarrow> mset (jobs ds es) = mset (jobs ds' es)"
  by (simp add: mset_jobs)

lemma returning_runs_agree:
  assumes perm1: "mset (ord1 (unique_keys P D domains [])) = mset (unique_keys P D domains [])"
    and perm2: "mset (ord2 (unique_keys P D domains [])) = mset (unique_keys P D domains [])"
    and run1: "lookupDomainBLs P D ord1 r domains es c sched1 = Some (sc1, hs1, e1)"
    and run2: "lookupDomainBLs P D ord2 r domains es c sched2 = Some (sc2, hs2, e2)"
  shows "sc1 = sc2 \<and> mset hs1 = mset hs2
       \<and> sc1 = (\<Sum>j\<in>#mset (jobs (unique_keys P D domains []) es). job_score P r j)
       \<and> mset hs1 = image_mset (\<lambda>j. Zone (bl j))
            (filter_mset (\<lambda>j. job_score P r j \<noteq> 0) (mset (jobs (unique_keys P D domains []) es)))"
proof -
  let ?K = "unique_keys P D domains []"
  have J1: "mset (jobs (cleanupDomains P D ord1 domains) es) = mset (jobs ?K es)"
    unfolding cleanupDomains_def using perm1 by (rule mset_jobs_cong)
  have J2: "mset (jobs (cleanupDomains P D ord2 domains) es) = mset (jobs ?K es)"
    unfolding cleanupDomains_def using perm2 by (rule mset_jobs_cong)
  from run1 obtain s1 where s1: "exec P r sched1 (lookupDomainBLs_init P D ord1 domains es c) = Some s1"
    "main s1 = Finished" "sc1 = score_var s1" "hs1 = hits_var s1"
    by (rule lookupDomainBLs_SomeD)
  from run2 obtain s2 where s2: "exec P r sched2 (lookupDomainBLs_init P D ord2 domains es c) = Some s2"
    "main s2 = Finished" "sc2 = score_var s2" "hs2 = hits_var s2"
    by (rule lookupDomainBLs_SomeD)
  note f1 = finished_state(2,3) [OF s1(1,2), unfolded J1]
  note f2 = finished_state(2,3) [OF s2(1,2), unfolded J2]
  from f1 f2 s1(3,4) s2(3,4) show ?thesis by simp
qed

lemma run_a_first:
  "lookupDomainBLs ParseIP_dotted Domain_default_rule id resolver_hit [''spam.example'']
     [entry_a, entry_b] concurrency
     [Send 0, Send 1, Call 0, Call 1, Deliver 0, Merge, Deliver 1, Merge,
      CloseJobs, WaitAll, CollectorExit, Return]
   = Some (6, [''a.bl.example'', ''b.bl.example''], None)"
  by code_simp

lemma run_b_first:
  "lookupDomainBLs ParseIP_dotted Domain_default_rule rev resolver_hit [''spam.example'']
     [entry_a, entry_b] concurrency
     [Send 1, Send 0, Call 0, Call 1, Deliver 0, Merge, CloseJobs, Deliver 1, Merge,
      WaitAll, CollectorExit, Return]
   = Some (6, [''b.bl.example'', ''a.bl.example''], None)"
  by code_simp

lemma cleanup_nine_rev:
  "cleanupDomains ParseIP_dotted Domain_default_rule rev nine_domains = rev nine_domains"
  by code_simp

text \<open>
  C9. The claim fails on the code where there are more jobs than the ceiling, by the defect
  of C1: the invocations do not return, so they return no score and no hits. With nine
  domains, one list and the ceiling 8 no schedule returns, whatever the order of the map,
  and in general none does once the jobs outnumber the ceiling. Where they do not, the
  claim holds: a run that returns exists; every run without a cancellation has at most
  \<open>4 * jobs + 5\<close> steps and is never blocked before the \<open>return\<close>, so it ends in the \<open>return\<close>;
  and any two runs that return, whatever their schedules and the orders in which the map of
  \<open>cleanupDomains\<close> was ranged over, return the same total score and the same multiset of hit
  zones: the sum of the scores of all jobs, and the zones of the jobs with a score other
  than 0. Only the order of the hit list depends on the run.
\<close>

theorem lookupDomainBLs_same_result_where_it_returns:
  assumes perm1: "mset (ord1 (unique_keys P D domains [])) = mset (unique_keys P D domains [])"
    and perm2: "mset (ord2 (unique_keys P D domains [])) = mset (unique_keys P D domains [])"
  shows "lookupDomainBLs ParseIP_dotted Domain_default_rule id resolver_hit nine_domains [entry_a]
           concurrency schedA = None
     \<and> lookupDomainBLs ParseIP_dotted Domain_default_rule rev resolver_hit nine_domains [entry_a]
           concurrency schedB = None
     \<and> (nat c < length (cleanupDomains P D ord1 domains) * length es \<longrightarrow>
           lookupDomainBLs P D ord1 r domains es c sched = None)
     \<and> (length (cleanupDomains P D ord1 domains) * length es \<le> nat c \<longrightarrow>
           (\<exists>sched'. lookupDomainBLs P D ord1 r domains es c sched' \<noteq> None)
         \<and> (\<forall>sched' s. Cancel \<notin> set sched'
                 \<and> exec P r sched' (lookupDomainBLs_init P D ord1 domains es c) = Some s \<longrightarrow>
               length sched' \<le> 4 * (length (cleanupDomains P D ord1 domains) * length es) + 5
             \<and> (main s \<noteq> Finished \<longrightarrow> (\<exists>a. a \<noteq> Cancel \<and> step P r a s \<noteq> None))))
     \<and> (\<forall>sched1 sched2 sc1 hs1 e1 sc2 hs2 e2.
           lookupDomainBLs P D ord1 r domains es c sched1 = Some (sc1, hs1, e1)
         \<and> lookupDomainBLs P D ord2 r domains es c sched2 = Some (sc2, hs2, e2) \<longrightarrow>
           sc1 = sc2 \<and> mset hs1 = mset hs2
         \<and> sc1 = (\<Sum>j\<in>#mset (jobs (unique_keys P D domains []) es). job_score P r j)
         \<and> mset hs1 = image_mset (\<lambda>j. Zone (bl j))
              (filter_mset (\<lambda>j. job_score P r j \<noteq> 0) (mset (jobs (unique_keys P D domains []) es))))"
proof -
  have nine: "lookupDomainBLs ParseIP_dotted Domain_default_rule id resolver_hit nine_domains [entry_a]
           concurrency schedA = None"
  proof (rule no_return_when_short_of_workers)
    show "worker_count concurrency
            (length (cleanupDomains ParseIP_dotted Domain_default_rule id nine_domains) * length [entry_a])
          < length (cleanupDomains ParseIP_dotted Domain_default_rule id nine_domains) * length [entry_a]"
      unfolding cleanup_nine by (simp add: nine_domains_def worker_count_def concurrency_def)
  qed
  have nine_rev: "lookupDomainBLs ParseIP_dotted Domain_default_rule rev resolver_hit nine_domains
           [entry_a] concurrency schedB = None"
  proof (rule no_return_when_short_of_workers)
    show "worker_count concurrency
            (length (cleanupDomains ParseIP_dotted Domain_default_rule rev nine_domains) * length [entry_a])
          < length (cleanupDomains ParseIP_dotted Domain_default_rule rev nine_domains) * length [entry_a]"
      unfolding cleanup_nine_rev by (simp add: nine_domains_def worker_count_def concurrency_def)
  qed
  have beyond: "nat c < length (cleanupDomains P D ord1 domains) * length es \<longrightarrow>
           lookupDomainBLs P D ord1 r domains es c sched = None"
  proof
    assume "nat c < length (cleanupDomains P D ord1 domains) * length es"
    then have "worker_count c (length (cleanupDomains P D ord1 domains) * length es)
                 < length (cleanupDomains P D ord1 domains) * length es"
      by (auto simp: worker_count_def)
    then show "lookupDomainBLs P D ord1 r domains es c sched = None"
      by (rule no_return_when_short_of_workers)
  qed
  have within: "length (cleanupDomains P D ord1 domains) * length es \<le> nat c \<longrightarrow>
           (\<exists>sched'. lookupDomainBLs P D ord1 r domains es c sched' \<noteq> None)
         \<and> (\<forall>sched' s. Cancel \<notin> set sched'
                 \<and> exec P r sched' (lookupDomainBLs_init P D ord1 domains es c) = Some s \<longrightarrow>
               length sched' \<le> 4 * (length (cleanupDomains P D ord1 domains) * length es) + 5
             \<and> (main s \<noteq> Finished \<longrightarrow> (\<exists>a. a \<noteq> Cancel \<and> step P r a s \<noteq> None)))"
  proof (intro impI conjI allI)
    assume enough: "length (cleanupDomains P D ord1 domains) * length es \<le> nat c"
    then show "\<exists>sched'. lookupDomainBLs P D ord1 r domains es c sched' \<noteq> None"
      by (rule returns_when_enough_workers)
    fix sched' s
    assume "Cancel \<notin> set sched'
                 \<and> exec P r sched' (lookupDomainBLs_init P D ord1 domains es c) = Some s"
    then have nc: "Cancel \<notin> set sched'"
      and run: "exec P r sched' (lookupDomainBLs_init P D ord1 domains es c) = Some s"
      by simp_all
    from uncancelled_runs_return(1) [OF enough nc run]
    show "length sched' \<le> 4 * (length (cleanupDomains P D ord1 domains) * length es) + 5" .
    assume "main s \<noteq> Finished"
    then show "\<exists>a. a \<noteq> Cancel \<and> step P r a s \<noteq> None"
      by (rule uncancelled_runs_return(2) [OF enough nc run])
  qed
  have agree: "\<forall>sched1 sched2 sc1 hs1 e1 sc2 hs2 e2.
           lookupDomainBLs P D ord1 r domains es c sched1 = Some (sc1, hs1, e1)
         \<and> lookupDomainBLs P D ord2 r domains es c sched2 = Some (sc2, hs2, e2) \<longrightarrow>
           sc1 = sc2 \<and> mset hs1 = mset hs2
         \<and> sc1 = (\<Sum>j\<in>#mset (jobs (unique_keys P D domains []) es). job_score P r j)
         \<and> mset hs1 = image_mset (\<lambda>j. Zone (bl j))
              (filter_mset (\<lambda>j. job_score P r j \<noteq> 0) (mset (jobs (unique_keys P D domains []) es)))"
  proof (intro allI impI)
    fix sched1 sched2 sc1 hs1 e1 sc2 hs2 e2
    assume "lookupDomainBLs P D ord1 r domains es c sched1 = Some (sc1, hs1, e1)
         \<and> lookupDomainBLs P D ord2 r domains es c sched2 = Some (sc2, hs2, e2)"
    then have run1: "lookupDomainBLs P D ord1 r domains es c sched1 = Some (sc1, hs1, e1)"
      and run2: "lookupDomainBLs P D ord2 r domains es c sched2 = Some (sc2, hs2, e2)"
      by simp_all
    from returning_runs_agree [OF perm1 perm2 run1 run2]
    show "sc1 = sc2 \<and> mset hs1 = mset hs2
         \<and> sc1 = (\<Sum>j\<in>#mset (jobs (unique_keys P D domains []) es). job_score P r j)
         \<and> mset hs1 = image_mset (\<lambda>j. Zone (bl j))
              (filter_mset (\<lambda>j. job_score P r j \<noteq> 0) (mset (jobs (unique_keys P D domains []) es)))" .
  qed
  from nine nine_rev beyond within agree show ?thesis by (intro conjI)
qed

lemma cleanup_one:
  "cleanupDomains ParseIP_dotted Domain_default_rule id [''spam.example''] = [''spam.example'']"
  by code_simp

theorem lookupDomainBLs_same_result_where_it_returns_witness:
  "lookupDomainBLs ParseIP_dotted Domain_default_rule id resolver_hit [''spam.example'']
     [entry_a, entry_b] concurrency
     [Send 0, Send 1, Call 0, Call 1, Deliver 0, Merge, Deliver 1, Merge,
      CloseJobs, WaitAll, CollectorExit, Return]
   = Some (6, [''a.bl.example'', ''b.bl.example''], None)
   \<and> lookupDomainBLs ParseIP_dotted Domain_default_rule rev resolver_hit [''spam.example'']
     [entry_a, entry_b] concurrency
     [Send 1, Send 0, Call 0, Call 1, Deliver 0, Merge, CloseJobs, Deliver 1, Merge,
      WaitAll, CollectorExit, Return]
   = Some (6, [''b.bl.example'', ''a.bl.example''], None)
   \<and> mset [''a.bl.example'', ''b.bl.example''] = mset [''b.bl.example'', ''a.bl.example'']
   \<and> length (cleanupDomains ParseIP_dotted Domain_default_rule id [''spam.example''])
         * length [entry_a, entry_b] \<le> nat concurrency
   \<and> (\<exists>sched. lookupDomainBLs ParseIP_dotted Domain_default_rule id resolver_hit [''spam.example'']
                 [entry_a, entry_b] concurrency sched \<noteq> None)"
proof -
  let ?K = "unique_keys ParseIP_dotted Domain_default_rule [''spam.example''] []"
  have perm1: "mset (id ?K) = mset ?K" by simp
  have perm2: "mset (rev ?K) = mset ?K" by simp
  have enough: "length (cleanupDomains ParseIP_dotted Domain_default_rule id [''spam.example''])
                  * length [entry_a, entry_b] \<le> nat concurrency"
    unfolding cleanup_one by (simp add: concurrency_def)
  note t = lookupDomainBLs_same_result_where_it_returns
             [where ?ord1.0 = id and ?ord2.0 = rev and P = ParseIP_dotted
                and D = Domain_default_rule and domains = "[''spam.example'']"
                and r = resolver_hit and es = "[entry_a, entry_b]" and c = concurrency,
              OF perm1 perm2]
  from t run_a_first run_b_first
  have same: "mset [''a.bl.example'', ''b.bl.example''] = mset [''b.bl.example'', ''a.bl.example'']"
    by blast
  from t enough
  have ex: "\<exists>sched. lookupDomainBLs ParseIP_dotted Domain_default_rule id resolver_hit [''spam.example'']
                 [entry_a, entry_b] concurrency sched \<noteq> None"
    by blast
  from run_a_first run_b_first same enough ex show ?thesis by (intro conjI)
qed


section \<open>The policy decision: \<open>CheckBody\<close>\<close>

text \<open>
  C7. When the lookups return without an error, \<open>CheckBody\<close> rejects if the score is at least
  the reject threshold (whatever the quarantine threshold is, also a larger one), else
  quarantines if the score is at least the quarantine threshold, else returns the empty
  result (allow). \<open>Init\<close> without the two directives sets the quarantine threshold to 1 and
  the reject threshold to 9999.
\<close>

theorem CheckBody_reject_checked_first:
  "(sint (rejectThres c) \<le> sint sc \<longrightarrow>
      CheckBody_decide c (sc, hs, None) =
        Apply_action \<lparr>Quarantine = False, Reject = True\<rparr>
          ''bl score exceeds reject threshold'' sc (rejectThres c) hs)
   \<and> (sint sc < sint (rejectThres c) \<and> sint (quarantineThres c) \<le> sint sc \<longrightarrow>
      CheckBody_decide c (sc, hs, None) =
        Apply_action \<lparr>Quarantine = True, Reject = False\<rparr>
          ''bl score exceeds quarantine threshold'' sc (quarantineThres c) hs)
   \<and> (sint sc < sint (rejectThres c) \<and> sint sc < sint (quarantineThres c) \<longrightarrow>
      CheckBody_decide c (sc, hs, None) = Empty_result)
   \<and> quarantineThres (Init Map.empty c) = 1
   \<and> rejectThres (Init Map.empty c) = 9999"
  by (simp add: CheckBody_decide_def Init_def cfg_Int_def)

theorem CheckBody_reject_checked_first_witness:
  "CheckBody_decide \<lparr>inlineBls = [], bls = [], quarantineThres = 5, rejectThres = 1\<rparr> (7, [''z''], None)
     = Apply_action \<lparr>Quarantine = False, Reject = True\<rparr> ''bl score exceeds reject threshold'' 7 1 [''z'']
   \<and> CheckBody_decide (Init Map.empty \<lparr>inlineBls = [], bls = [], quarantineThres = 0, rejectThres = 0\<rparr>)
        (1, [''z''], None)
     = Apply_action \<lparr>Quarantine = True, Reject = False\<rparr> ''bl score exceeds quarantine threshold'' 1 1 [''z'']
   \<and> CheckBody_decide (Init Map.empty \<lparr>inlineBls = [], bls = [], quarantineThres = 0, rejectThres = 0\<rparr>)
        (0, [], None) = Empty_result"
  using
    CheckBody_reject_checked_first
      [of "\<lparr>inlineBls = [], bls = [], quarantineThres = 5, rejectThres = 1\<rparr>" 7 "[''z'']"]
    CheckBody_reject_checked_first
      [of "Init Map.empty \<lparr>inlineBls = [], bls = [], quarantineThres = 0, rejectThres = 0\<rparr>" 1 "[''z'']"]
    CheckBody_reject_checked_first
      [of "Init Map.empty \<lparr>inlineBls = [], bls = [], quarantineThres = 0, rejectThres = 0\<rparr>" 0 "[]"]
  by (simp add: Init_def cfg_Int_def)

text \<open>
  The lists of \<open>Check.Init\<close> in order: what \<open>c.bls\<close> held, then the inline arguments, then the
  lists of the configuration blocks in turn. An error of \<open>cfg.Process\<close> or of a block's
  \<open>readListCfg\<close> is what \<open>Init\<close> returns.
\<close>

lemma read_blocks_all_read:
  "read_blocks (map Inr lss) c = Inr (c\<lparr>bls := bls c @ concat lss\<rparr>)"
  by (induction lss arbitrary: c) simp_all

lemma Check_Init_order:
  "Check_Init cfg None (map Inr lss) c =
     Inr ((Init cfg c)\<lparr>bls := bls c @ map (\<lambda>z. \<lparr>Zone = z, Bits = 0, ScoreAdj = 0\<rparr>) (inlineBls c)
                              @ concat lss\<rparr>)"
  by (simp add: Check_Init_def read_blocks_all_read Init_def)

lemma Check_Init_errors:
  "Check_Init cfg (Some e) blocks c = Inl e"
  "Check_Init cfg None (map Inr lss @ Inl e # rest) c = Inl e"
proof -
  show "Check_Init cfg (Some e) blocks c = Inl e" by (simp add: Check_Init_def)
  have "read_blocks (map Inr lss @ Inl e # rest) c' = Inl e" for c'
    by (induction lss arbitrary: c') simp_all
  then show "Check_Init cfg None (map Inr lss @ Inl e # rest) c = Inl e"
    by (simp add: Check_Init_def)
qed


end
